theory Spec2Isabelle
  imports Complex_Main "HOL-Library.Sublist" "HOL-Library.Word"
begin

section \<open>Errors and strings\<close>

text \<open>
  \<^verbatim>\<open>NCRYSTAL_THROW2(BadInput, msg)\<close> raises an \<^verbatim>\<open>Error::BadInput\<close> whose
  \<^verbatim>\<open>what()\<close> is the streamed message. A function that may throw returns
  \<open>error + 'a\<close>, with \<open>Inl\<close> for the exception. A \<^verbatim>\<open>StrView\<close> and a
  \<^verbatim>\<open>std::string\<close> are both a \<open>string\<close> (a list of bytes).
\<close>

datatype error = BadInput string

definition dquote :: string where
  "dquote = [CHR 0x22]"

text \<open>
  Modelled from the spec: \<^verbatim>\<open>isWhiteSpace\<close> (NCString.hh is not part of the sources):
  the blank, tab, newline and carriage return.
\<close>

definition isWhiteSpace :: "char \<Rightarrow> bool" where
  "isWhiteSpace c = (c = CHR '' '' \<or> c = CHR 0x09 \<or> c = CHR 0x0A \<or> c = CHR 0x0D)"

text \<open>
  Modelled from the spec: \<^verbatim>\<open>isAlphaNumeric\<close> (NCString.hh is not part of the
  sources): the spec gives factory names as \<^verbatim>\<open>[A-Za-z0-9_-]+\<close>, so the alphanumeric
  characters are the ASCII letters and digits.
\<close>

definition isAlphaNumeric :: "char \<Rightarrow> bool" where
  "isAlphaNumeric c =
     (c \<in> set ''abcdefghijklmnopqrstuvwxyzABCDEFGHIJKLMNOPQRSTUVWXYZ0123456789'')"

text \<open>
  Modelled from the spec: \<^verbatim>\<open>StrView::trimmed\<close> (NCStrView.hh is not part of the
  sources): the view without its leading and trailing whitespace.
\<close>

definition trimmed :: "string \<Rightarrow> string" where
  "trimmed s = rev (dropWhile isWhiteSpace (rev (dropWhile isWhiteSpace s)))"

text \<open>
  The fields of a string between the characters that satisfy \<open>p\<close>, empty fields
  kept (\<open>n\<close> separators give \<open>n + 1\<close> fields). The splitting functions of
  \<^verbatim>\<open>StrView\<close> below are written with it.
\<close>

fun split_on :: "(char \<Rightarrow> bool) \<Rightarrow> string \<Rightarrow> string list" where
  "split_on p [] = [[]]"
| "split_on p (c # cs) =
     (if p c then [] # split_on p cs
      else (case split_on p cs of
              [] \<Rightarrow> [[c]]
            | w # ws \<Rightarrow> (c # w) # ws))"

text \<open>
  Modelled from the spec: \<^verbatim>\<open>StrView::splitTrimmedNoEmpty(sep)\<close> (NCStrView.hh is not
  part of the sources): the fields between the separators, each trimmed, the empty ones
  dropped.
\<close>

definition splitTrimmedNoEmpty :: "char \<Rightarrow> string \<Rightarrow> string list" where
  "splitTrimmedNoEmpty sep s =
     filter (\<lambda>x. x \<noteq> []) (map trimmed (split_on (\<lambda>c. c = sep) s))"

text \<open>
  Modelled from the spec: \<^verbatim>\<open>StrView::split()\<close> with no argument (NCStrView.hh is not
  part of the sources): the maximal runs of non-whitespace characters (runs of whitespace
  collapsed, leading and trailing whitespace dropped).
\<close>

definition split_ws :: "string \<Rightarrow> string list" where
  "split_ws s = filter (\<lambda>x. x \<noteq> []) (split_on isWhiteSpace s)"

text \<open>
  Modelled from the spec: \<^verbatim>\<open>split2(str, maxsplit = 0, sep)\<close> (NCString.hh is not part
  of the sources): with no limit on the number of splits, the fields between the
  separators.
\<close>

definition split2 :: "string \<Rightarrow> char \<Rightarrow> string list" where
  "split2 s sep = split_on (\<lambda>c. c = sep) s"

text \<open>
  Modelled from the spec: \<^verbatim>\<open>joinstr(parts, sep)\<close> (NCString.hh is not part of the
  sources): the parts in order, with the separator between two neighbours.
\<close>

fun joinstr :: "string list \<Rightarrow> string \<Rightarrow> string" where
  "joinstr [] sep = []"
| "joinstr [p] sep = p"
| "joinstr (p # q # ps) sep = p @ sep @ joinstr (q # ps) sep"

text \<open>
  Modelled from the spec: \<^verbatim>\<open>strreplace(str, old, new)\<close> (NCString.hh is not part of
  the sources): every occurrence of \<open>old\<close>, found from left to right, replaced by
  \<open>new\<close>; in place in the source, returned here.
\<close>

function strreplace :: "string \<Rightarrow> string \<Rightarrow> string \<Rightarrow> string" where
  "strreplace s old new =
     (if old = [] \<or> s = [] then s
      else if prefix old s then new @ strreplace (drop (length old) s) old new
      else hd s # strreplace (tl s) old new)"
  by pat_completeness auto
termination
  by (relation "measure (\<lambda>(s, old, new). length s)") auto

declare strreplace.simps [simp del]

text \<open>
  Modelled from the spec: \<^verbatim>\<open>StrView::contains_only(chars)\<close>,
  \<^verbatim>\<open>StrView::startswith(char)\<close> and \<^verbatim>\<open>StrView::substr(pos)\<close> (NCStrView.hh is not
  part of the sources).
\<close>

definition contains_only :: "string \<Rightarrow> string \<Rightarrow> bool" where
  "contains_only sv chars = list_all (\<lambda>c. c \<in> set chars) sv"

definition startswith :: "string \<Rightarrow> char \<Rightarrow> bool" where
  "startswith sv c = (case sv of [] \<Rightarrow> False | x # _ \<Rightarrow> x = c)"

definition substr :: "string \<Rightarrow> nat \<Rightarrow> string" where
  "substr sv pos = drop pos sv"

section \<open>The inelas variable\<close>

text \<open>
  Modelled from the spec: \<^verbatim>\<open>isOneOf(sv, a, b, c, d)\<close> (NCString.hh is not part of the
  sources): whether the first argument equals one of the others.
\<close>

definition isOneOf :: "string \<Rightarrow> string list \<Rightarrow> bool" where
  "isOneOf sv cands = list_ex (\<lambda>c. sv = c) cands"

definition vardef_inelas_str2val :: "string \<Rightarrow> error + string" where
  "vardef_inelas_str2val sv =
     (if sv = [] \<or> \<not> contains_only sv ''abcdefghijklmnopqrstuvwxyz_0123456789''
      then Inl (BadInput (''invalid value specified for parameter inelas: ''
                          @ dquote @ sv @ dquote))
      else if isOneOf sv [''none'', ''0'', ''sterile'', ''false''] then Inr ''0''
      else Inr sv)"

section \<open>Rendering an orientation direction\<close>

text \<open>
  \<^verbatim>\<open>OrientDir\<close> holds \<^verbatim>\<open>crystal\<close>, a
  \<^verbatim>\<open>Variant<CrystalAxis,HKLPoint>\<close> that may be empty, and \<^verbatim>\<open>lab\<close>, a
  \<^verbatim>\<open>LabAxis\<close>; each vector has three components. The components are kept abstract
  (type \<open>'d\<close>): the stream operator only hands them to \<^verbatim>\<open>fmt\<close>, which is not
  part of the sources and is a parameter here. The stream is the text written so far.
\<close>

datatype 'd crystal_variant =
    CrystalAxis 'd 'd 'd
  | HKLPoint 'd 'd 'd
  | EmptyVariant

record 'd OrientDir =
  crystal :: "'d crystal_variant"
  lab :: "'d \<times> 'd \<times> 'd"

definition fmt3 :: "('d \<Rightarrow> string) \<Rightarrow> 'd \<Rightarrow> 'd \<Rightarrow> 'd \<Rightarrow> string" where
  "fmt3 fmt a b c = fmt a @ '','' @ fmt b @ '','' @ fmt c"

definition stream_OrientDir :: "('d \<Rightarrow> string) \<Rightarrow> string \<Rightarrow> 'd OrientDir \<Rightarrow> string" where
  "stream_OrientDir fmt os od =
     (let os1 = (case crystal od of
                   CrystalAxis v0 v1 v2 \<Rightarrow> os @ ''@crys:'' @ fmt3 fmt v0 v1 v2
                 | HKLPoint v0 v1 v2 \<Rightarrow> os @ ''@crys_hkl:'' @ fmt3 fmt v0 v1 v2
                 | EmptyVariant \<Rightarrow> os @ ''@crys:<MISSING>'')
      in case lab od of (l0, l1, l2) \<Rightarrow> os1 @ ''@lab:'' @ fmt3 fmt l0 l1 l2)"

section \<open>Factory-name requests\<close>

record FactNameRequest =
  m_specific :: string
  m_excluded :: "string list"

definition hasSpecificRequest :: "FactNameRequest \<Rightarrow> bool" where
  "hasSpecificRequest r = (m_specific r \<noteq> [])"

definition specificRequest :: "FactNameRequest \<Rightarrow> string" where
  "specificRequest r = m_specific r"

definition excludes :: "FactNameRequest \<Rightarrow> string \<Rightarrow> bool" where
  "excludes r fn = list_ex (\<lambda>e. fn = e) (m_excluded r)"

definition withAdditionalExclude :: "FactNameRequest \<Rightarrow> string \<Rightarrow> FactNameRequest" where
  "withAdditionalExclude r factname =
     (if excludes r factname then r
      else r\<lparr>m_excluded := m_excluded r @ [factname]\<rparr>)"

definition withNoSpecificRequest :: "FactNameRequest \<Rightarrow> FactNameRequest" where
  "withNoSpecificRequest r = \<lparr>m_specific = [], m_excluded = m_excluded r\<rparr>"

text \<open>
  Modelled from the spec: \<^verbatim>\<open>FactNameRequest::to_string\<close> (declared in NCCfgVars.hh,
  its body is not part of the sources). The spec gives the rendering as
  \<^verbatim>\<open>name\<close>, \<^verbatim>\<open>!excl1\<close>, \<^verbatim>\<open>name@!excl1@!excl2\<close>, the excluded names in
  insertion order.
\<close>

definition to_string :: "FactNameRequest \<Rightarrow> string" where
  "to_string r =
     joinstr ((if m_specific r = [] then [] else [m_specific r])
              @ map (\<lambda>e. CHR ''!'' # e) (m_excluded r)) ''@''"

text \<open>The three messages of \<^verbatim>\<open>FactNameRequest::Parser::doParse\<close>.\<close>

definition msg_not_valid :: "string \<Rightarrow> string" where
  "msg_not_valid svn = ''Not a valid factory name: '' @ dquote @ svn @ dquote"

definition msg_more_than_one :: "string \<Rightarrow> string \<Rightarrow> string" where
  "msg_more_than_one specific e =
     ''Contains more than one (non-negated) entry ('' @ dquote @ specific @ dquote
     @ '' and '' @ dquote @ e @ dquote @ ''.''"

definition msg_required_and_excluded :: "string \<Rightarrow> string" where
  "msg_required_and_excluded specific =
     ''The factory '' @ dquote @ specific @ dquote
     @ '' is both specified as being simultaneously required and excluded.''"

definition checkValidFactoryName :: "string \<Rightarrow> error + unit" where
  "checkValidFactoryName svn =
     (let ok = (svn \<noteq> []
                \<and> \<not> list_ex (\<lambda>e. \<not> isAlphaNumeric e \<and> e \<noteq> CHR ''_'' \<and> e \<noteq> CHR ''-'') svn)
      in if \<not> ok then Inl (BadInput (msg_not_valid svn)) else Inr ())"

text \<open>The loop of \<^verbatim>\<open>doParse\<close> over the entries, \<open>res\<close> the request built so far.\<close>

fun doParse_loop :: "FactNameRequest \<Rightarrow> string list \<Rightarrow> error + FactNameRequest" where
  "doParse_loop res [] = Inr res"
| "doParse_loop res (e # es) =
     (if startswith e (CHR ''!'') then
        (let exlname = trimmed (substr e 1) in
         case checkValidFactoryName exlname of
           Inl err \<Rightarrow> Inl err
         | Inr _ \<Rightarrow>
             doParse_loop
               (if \<not> excludes res exlname
                then res\<lparr>m_excluded := m_excluded res @ [exlname]\<rparr> else res) es)
      else
        (case checkValidFactoryName e of
           Inl err \<Rightarrow> Inl err
         | Inr _ \<Rightarrow>
             if m_specific res \<noteq> []
             then Inl (BadInput (msg_more_than_one (m_specific res) e))
             else doParse_loop (res\<lparr>m_specific := e\<rparr>) es))"

definition doParse :: "string \<Rightarrow> error + FactNameRequest" where
  "doParse sv =
     (case doParse_loop \<lparr>m_specific = [], m_excluded = []\<rparr> (splitTrimmedNoEmpty (CHR ''@'') sv) of
        Inl err \<Rightarrow> Inl err
      | Inr res \<Rightarrow>
          if m_specific res \<noteq> [] \<and> excludes res (m_specific res)
          then Inl (BadInput (msg_required_and_excluded (m_specific res)))
          else Inr res)"

text \<open>
  The name that \<^verbatim>\<open>doParse\<close> checks for an entry: \<open>exlname\<close> for an entry that
  starts with "!", the entry itself otherwise.
\<close>

definition entry_name :: "string \<Rightarrow> string" where
  "entry_name e = (if startswith e (CHR ''!'') then trimmed (substr e 1) else e)"

text \<open>
  What the parser establishes about the names it stores: the excluded names are valid
  factory names without repetition, and the specific name is empty or a valid name.
\<close>

definition names_ok :: "FactNameRequest \<Rightarrow> bool" where
  "names_ok r =
     (list_all (\<lambda>n. checkValidFactoryName n = Inr ()) (m_excluded r)
      \<and> distinct (m_excluded r)
      \<and> (m_specific r = [] \<or> checkValidFactoryName (m_specific r) = Inr ()))"

section \<open>Numeric validators\<close>

text \<open>
  A \<^verbatim>\<open>double\<close> is a finite value (the real number it denotes; the two zeros are one
  value), an infinity or a NaN. The comparisons are those of IEEE 754: every comparison
  with a NaN is false. So \<^verbatim>\<open>!(value >= 0.0)\<close> holds of a NaN, as in the source.
\<close>

datatype double = Finite real | PosInf | NegInf | NaN

fun dbl_le :: "double \<Rightarrow> double \<Rightarrow> bool" where
  "dbl_le (Finite a) (Finite b) = (a \<le> b)"
| "dbl_le NaN _ = False"
| "dbl_le _ NaN = False"
| "dbl_le NegInf _ = True"
| "dbl_le _ PosInf = True"
| "dbl_le _ _ = False"

fun dbl_lt :: "double \<Rightarrow> double \<Rightarrow> bool" where
  "dbl_lt (Finite a) (Finite b) = (a < b)"
| "dbl_lt NaN _ = False"
| "dbl_lt _ NaN = False"
| "dbl_lt PosInf _ = False"
| "dbl_lt _ NegInf = False"
| "dbl_lt _ _ = True"

definition dbl_ge :: "double \<Rightarrow> double \<Rightarrow> bool" where
  "dbl_ge a b = dbl_le b a"

definition dbl_gt :: "double \<Rightarrow> double \<Rightarrow> bool" where
  "dbl_gt a b = dbl_lt b a"

definition dbl_eq :: "double \<Rightarrow> double \<Rightarrow> bool" where
  "dbl_eq a b = (a \<noteq> NaN \<and> b \<noteq> NaN \<and> a = b)"

text \<open>
  The literals of the source that are not integers, each the exact value of the
  double nearest to the decimal: \<^verbatim>\<open>0.001\<close> (also written \<^verbatim>\<open>1e-3\<close>) is
  \<open>1152921504606847 / 2^60\<close>, \<^verbatim>\<open>1e-7\<close> is \<open>944473296573929 / 2^73\<close> and
  \<^verbatim>\<open>1e-1\<close> is \<open>3602879701896397 / 2^55\<close>.
\<close>

definition dbl_0_001 :: double where
  "dbl_0_001 = Finite (1152921504606847 / 2 ^ 60)"

definition dbl_1em7 :: double where
  "dbl_1em7 = Finite (944473296573929 / 2 ^ 73)"

definition dbl_1em1 :: double where
  "dbl_1em1 = Finite (3602879701896397 / 2 ^ 55)"

text \<open>
  \<^verbatim>\<open>vardef_temp::value_validate\<close>. The message streams \<^verbatim>\<open>Temperature{value}\<close>, whose
  stream operator is not part of the sources: its rendering \<open>fmt_temp\<close> is a parameter.
\<close>

definition vardef_temp_value_validate :: "(double \<Rightarrow> string) \<Rightarrow> double \<Rightarrow> error + double" where
  "vardef_temp_value_validate fmt_temp value =
     (if \<not> (dbl_eq value (Finite (- 1))
             \<or> (dbl_ge value dbl_0_001 \<and> dbl_le value (Finite 1000000)))
      then Inl (BadInput (''Out of range temperature value '' @ fmt_temp value
                  @ '' provided for parameter '' @ dquote @ ''temp'' @ dquote
                  @ '' (valid temperatures must be in the range 0.001K .. 1000000K)''))
      else Inr value)"

definition vardef_dcutoff_value_validate :: "double \<Rightarrow> error + double" where
  "vardef_dcutoff_value_validate value =
     (if dbl_eq value (Finite (- 1)) \<or> dbl_eq value (Finite 0) then Inr (Finite 0)
      else if \<not> dbl_gt value (Finite 0) then Inl (BadInput ''dcutoff must be >=0.0'')
      else if \<not> (dbl_ge value dbl_0_001 \<and> dbl_le value (Finite 100000))
      then Inl (BadInput
             ''dcutoff must be 0 (for automatic selection), or in range [1e-3,1e5] (Aa)'')
      else Inr value)"

definition vardef_dcutoffup_value_validate :: "double \<Rightarrow> error + double" where
  "vardef_dcutoffup_value_validate value =
     (if \<not> dbl_ge value (Finite 0) then Inl (BadInput ''dcutoffup must be >=0.0'')
      else Inr value)"

definition vardef_sccutoff_value_validate :: "double \<Rightarrow> error + double" where
  "vardef_sccutoff_value_validate value =
     (if \<not> dbl_ge value (Finite 0) then Inl (BadInput ''sccutoff must be >=0.0'')
      else Inr value)"

text \<open>
  \<^verbatim>\<open>kPiHalf\<close> and \<^verbatim>\<open>kPi\<close> are constants of NCDefs.hh, which is not part of the
  sources: they are parameters of the two validators that use them.
\<close>

definition vardef_mos_value_validate :: "double \<Rightarrow> double \<Rightarrow> error + double" where
  "vardef_mos_value_validate kPiHalf value =
     (if \<not> dbl_gt value (Finite 0) \<or> dbl_gt value kPiHalf
      then Inl (BadInput ''mos must be in range (0.0,pi/2]'')
      else Inr value)"

definition vardef_dirtol_value_validate :: "double \<Rightarrow> double \<Rightarrow> error + double" where
  "vardef_dirtol_value_validate kPi value =
     (if \<not> (dbl_gt value (Finite 0) \<and> dbl_le value kPi)
      then Inl (BadInput ''dirtol must be in range (0.0,pi]'')
      else Inr value)"

definition vardef_mosprec_value_validate :: "double \<Rightarrow> error + double" where
  "vardef_mosprec_value_validate value =
     (if \<not> dbl_ge value dbl_1em7 \<or> dbl_gt value dbl_1em1
      then Inl (BadInput ''mosprec must be in range [1e-7,1e-1]'')
      else Inr value)"

text \<open>
  The integer variables. \<^verbatim>\<open>ValInt::value_type\<close> is declared in NCCfgTypes.hh, which
  is not part of the sources; the bound of lcmode is written \<^verbatim>\<open>4000000000ll\<close>, a
  \<^verbatim>\<open>long long\<close>, so the type is taken as a signed 64-bit integer, read through
  \<open>sint\<close>.
\<close>

definition vardef_vdoslux_value_validate :: "64 word \<Rightarrow> error + 64 word" where
  "vardef_vdoslux_value_validate value =
     (if sint value < 0 \<or> sint value > 5
      then Inl (BadInput ''vdoslux must be an integral value from 0 to 5'')
      else Inr value)"

definition vardef_lcmode_value_validate :: "64 word \<Rightarrow> error + 64 word" where
  "vardef_lcmode_value_validate value =
     (let a = (4000000000 :: 64 word); b = - a in
      if sint value < sint b \<or> sint value > sint a
      then Inl (BadInput
             ''lcmode must be an integral value from -4000000000 to 4000000000'')
      else Inr value)"

section \<open>The atomdb variable\<close>

text \<open>
  \<^verbatim>\<open>validateAtomDBLine\<close> (NCAtomUtils.hh) is not part of the sources: it is the
  parameter \<open>validateAtomDBLine\<close>, which returns the BadInput error it throws or
  nothing.
\<close>

definition msg_atomdb_line :: "string \<Rightarrow> string \<Rightarrow> string" where
  "msg_atomdb_line part_joined what =
     ''Invalid entry in atomdb cfg parameter in the line: '' @ dquote @ part_joined
     @ dquote @ ''. Error is: '' @ what"

definition msg_atomdb_nodefaults :: string where
  "msg_atomdb_nodefaults =
     ''Invalid entry in atomdb cfg parameter ('' @ dquote @ ''nodefaults'' @ dquote
     @ '' must be the first line).''"

text \<open>
  One pass through the body of the loop of \<^verbatim>\<open>vardef_atomdb::str2val\<close>: \<open>result\<close>
  is the text so far, and the value is the error thrown or the text after the pass
  (unchanged after \<^verbatim>\<open>continue\<close>).
\<close>

definition atomdb_step :: "(string list \<Rightarrow> error + unit) \<Rightarrow> string \<Rightarrow> string \<Rightarrow> error + string" where
  "atomdb_step validateAtomDBLine result line_sv =
     (let line = strreplace line_sv '':'' '' '';
          parts = split_ws line
      in if parts = [] then Inr result
         else
           (let part_joined = joinstr parts '':'' in
            case validateAtomDBLine (split2 part_joined (CHR '':'')) of
              Inl e \<Rightarrow>
                (case e of BadInput what \<Rightarrow> Inl (BadInput (msg_atomdb_line part_joined what)))
            | Inr _ \<Rightarrow>
                if part_joined = ''nodefaults'' \<and> result \<noteq> []
                then Inl (BadInput msg_atomdb_nodefaults)
                else Inr ((if result \<noteq> [] then result @ ''@'' else result) @ part_joined)))"

fun atomdb_loop :: "(string list \<Rightarrow> error + unit) \<Rightarrow> string \<Rightarrow> string list \<Rightarrow> error + string" where
  "atomdb_loop validateAtomDBLine result [] = Inr result"
| "atomdb_loop validateAtomDBLine result (line_sv # rest) =
     (case atomdb_step validateAtomDBLine result line_sv of
        Inl e \<Rightarrow> Inl e
      | Inr result' \<Rightarrow> atomdb_loop validateAtomDBLine result' rest)"

definition vardef_atomdb_str2val :: "(string list \<Rightarrow> error + unit) \<Rightarrow> string \<Rightarrow> error + string" where
  "vardef_atomdb_str2val validateAtomDBLine sv =
     atomdb_loop validateAtomDBLine [] (splitTrimmedNoEmpty (CHR ''@'') sv)"

text \<open>
  The canonical line of an input line, as the loop computes it (\<open>part_joined\<close>), and
  the canonical non-empty lines of an input.
\<close>

definition atomdb_canon :: "string \<Rightarrow> string" where
  "atomdb_canon line_sv = joinstr (split_ws (strreplace line_sv '':'' '' '')) '':''"

definition atomdb_lines :: "string \<Rightarrow> string list" where
  "atomdb_lines sv =
     filter (\<lambda>l. l \<noteq> []) (map atomdb_canon (splitTrimmedNoEmpty (CHR ''@'') sv))"

text \<open>
  Two lines differ only in their separators: a colon in place of a whitespace
  character or the reverse, a longer or shorter run of separators, separators at the
  start or the end.
\<close>

definition is_sep :: "char \<Rightarrow> bool" where
  "is_sep c = (c = CHR '':'' \<or> isWhiteSpace c)"

inductive sep_equiv :: "string \<Rightarrow> string \<Rightarrow> bool" where
  same: "sep_equiv l l"
| swap: "is_sep c \<Longrightarrow> is_sep d \<Longrightarrow> sep_equiv (u @ c # v) (u @ d # v)"
| longer: "is_sep c \<Longrightarrow> is_sep d \<Longrightarrow> sep_equiv (u @ c # v) (u @ c # d # v)"
| leading: "is_sep c \<Longrightarrow> sep_equiv (c # v) v"
| trailing: "is_sep c \<Longrightarrow> sep_equiv (u @ [c]) u"
| flipped: "sep_equiv a b \<Longrightarrow> sep_equiv b a"
| chained: "sep_equiv a b \<Longrightarrow> sep_equiv b c \<Longrightarrow> sep_equiv a c"

text \<open>
  In \<^verbatim>\<open>str2val\<close> the pattern and the replacement of \<^verbatim>\<open>strreplace\<close> are one
  character each, so the call maps \<open>colon_to_blank\<close> over the line; the tokens of a
  line are the \<open>parts\<close> of the loop.
\<close>

definition colon_to_blank :: "char \<Rightarrow> char" where
  "colon_to_blank c = (if c = CHR '':'' then CHR '' '' else c)"

definition atomdb_tokens :: "string \<Rightarrow> string list" where
  "atomdb_tokens l = split_ws (strreplace l '':'' '' '')"

text \<open>
  The colon that stands between a text that ends in a token and the canonical line of
  what follows it, when what follows starts with a separator and has a token.
\<close>

definition sep_glue :: "string \<Rightarrow> string" where
  "sep_glue l = (if l \<noteq> [] \<and> is_sep (hd l) \<and> atomdb_tokens l \<noteq> [] then '':'' else [])"

section \<open>The table of variables\<close>

text \<open>
  Modelled from the spec: \<^verbatim>\<open>VarInfo\<close>, \<^verbatim>\<open>VarGroupId\<close> and \<^verbatim>\<open>make_varinfo\<close>
  (NCCfgTypes.hh is not part of the sources). In the spec a descriptor carries its
  canonical name and its functional group; the record keeps what \<^verbatim>\<open>name()\<close> and
  \<^verbatim>\<open>groupId()\<close> return, taken from the \<^verbatim>\<open>name\<close> and \<^verbatim>\<open>group\<close> of each
  \<^verbatim>\<open>vardef_xxx\<close> struct. The groups are the four that the structs name.
\<close>

datatype VarGroupId = Info | ScatterBase | ScatterExtra | Absorption

record VarInfo =
  name :: string
  groupId :: VarGroupId

definition make_varinfo :: "string \<Rightarrow> VarGroupId \<Rightarrow> VarInfo" where
  "make_varinfo nm grp = \<lparr>name = nm, groupId = grp\<rparr>"

definition varlist :: "VarInfo list" where
  "varlist =
     [make_varinfo ''absnfactory'' Absorption,
      make_varinfo ''atomdb'' Info,
      make_varinfo ''coh_elas'' ScatterBase,
      make_varinfo ''dcutoff'' Info,
      make_varinfo ''dcutoffup'' Info,
      make_varinfo ''dir1'' ScatterExtra,
      make_varinfo ''dir2'' ScatterExtra,
      make_varinfo ''dirtol'' ScatterExtra,
      make_varinfo ''incoh_elas'' ScatterBase,
      make_varinfo ''inelas'' ScatterBase,
      make_varinfo ''infofactory'' Info,
      make_varinfo ''lcaxis'' ScatterExtra,
      make_varinfo ''lcmode'' ScatterExtra,
      make_varinfo ''mos'' ScatterExtra,
      make_varinfo ''mosprec'' ScatterExtra,
      make_varinfo ''sans'' ScatterBase,
      make_varinfo ''scatfactory'' ScatterBase,
      make_varinfo ''sccutoff'' ScatterExtra,
      make_varinfo ''temp'' Info,
      make_varinfo ''vdoslux'' ScatterBase]"

text \<open>
  Modelled from the spec: \<^verbatim>\<open>constexpr_name2Idx(table, name)\<close> (NCCfgTypes.hh is not
  part of the sources). The spec has a deterministic mapping from a variable's name to
  a dense integer identifier that is used as the array index into the registry, a pure
  function of the name and the table: the index of the entry with that name, and no
  index (\<open>None\<close>; in the source the constant expression does not compile) for a name
  that is not in the table.
\<close>

fun constexpr_name2Idx :: "VarInfo list \<Rightarrow> string \<Rightarrow> nat option" where
  "constexpr_name2Idx [] nm = None"
| "constexpr_name2Idx (v # vs) nm =
     (if name v = nm then Some 0 else map_option Suc (constexpr_name2Idx vs nm))"

text \<open>
  \<^verbatim>\<open>unsigned\<close> and the underlying type \<^verbatim>\<open>std::uint32_t\<close> of \<^verbatim>\<open>VarId\<close> are 32-bit
  words. A \<^verbatim>\<open>VarId\<close> is its underlying value: each enumerator is defined as
  \<^verbatim>\<open>constexpr_varName2Idx\<close> of its name. Indexing \<^verbatim>\<open>varlist\<close> outside its bounds is
  undefined in the source and \<open>None\<close> here.
\<close>

type_synonym VarId = "32 word"

definition constexpr_varName2Idx :: "string \<Rightarrow> 32 word option" where
  "constexpr_varName2Idx nm = map_option of_nat (constexpr_name2Idx varlist nm)"

definition constexpr_varIdFromName :: "string \<Rightarrow> VarId option" where
  "constexpr_varIdFromName nm = constexpr_varName2Idx nm"

definition enumAsInt :: "VarId \<Rightarrow> nat" where
  "enumAsInt varid = unat varid"

definition varName :: "VarId \<Rightarrow> string option" where
  "varName varid =
     (if enumAsInt varid < length varlist then Some (name (varlist ! enumAsInt varid))
      else None)"

section \<open>Theorems\<close>

subsection \<open>Splitting, joining and trimming\<close>

lemma split_on_not_Nil: "split_on p s \<noteq> []"
  by (induction s) (auto split: list.splits)

lemma split_on_append_sep:
  "p c \<Longrightarrow> split_on p (xs @ c # ys) = split_on p xs @ split_on p ys"
  by (induction xs) (auto split: list.splits simp: split_on_not_Nil)

lemma split_on_no_sep: "\<forall>c \<in> set s. \<not> p c \<Longrightarrow> split_on p s = [s]"
  by (induction s) auto

lemma split_on_joinstr:
  "ps \<noteq> [] \<Longrightarrow> \<forall>q \<in> set ps. \<forall>c \<in> set q. \<not> p c \<Longrightarrow> p sep
   \<Longrightarrow> split_on p (joinstr ps [sep]) = ps"
proof (induction ps "[sep]" rule: joinstr.induct)
  case 1
  then show ?case by simp
next
  case (2 q)
  then show ?case by (simp add: split_on_no_sep)
next
  case (3 q r ps)
  then show ?case by (simp add: split_on_append_sep split_on_no_sep)
qed

lemma trimmed_id:
  "s \<noteq> [] \<Longrightarrow> \<not> isWhiteSpace (hd s) \<Longrightarrow> \<not> isWhiteSpace (last s) \<Longrightarrow> trimmed s = s"
proof -
  assume a: "s \<noteq> []" "\<not> isWhiteSpace (hd s)" "\<not> isWhiteSpace (last s)"
  then have 1: "dropWhile isWhiteSpace s = s" by (cases s) auto
  from a have "hd (rev s) = last s" by (simp add: hd_rev)
  with a have "\<not> isWhiteSpace (hd (rev s))" "rev s \<noteq> []" by simp_all
  then have 2: "dropWhile isWhiteSpace (rev s) = rev s" by (cases "rev s") simp_all
  show ?thesis by (simp add: trimmed_def 1 2)
qed

subsection \<open>Factory-name requests\<close>

lemma checkValid_cases:
  "checkValidFactoryName n = Inr () \<or> checkValidFactoryName n = Inl (BadInput (msg_not_valid n))"
  by (simp add: checkValidFactoryName_def Let_def)

lemma valid_name_chars:
  assumes "checkValidFactoryName n = Inr ()" "c \<in> set n"
  shows "c \<noteq> CHR ''@'' \<and> c \<noteq> CHR ''!'' \<and> \<not> isWhiteSpace c"
proof -
  from assms have "isAlphaNumeric c \<or> c = CHR ''_'' \<or> c = CHR ''-''"
    by (auto simp: checkValidFactoryName_def Let_def list_ex_iff split: if_splits)
  then show ?thesis
    by (auto simp: isAlphaNumeric_def isWhiteSpace_def)
qed

lemma valid_name_not_Nil: "checkValidFactoryName n = Inr () \<Longrightarrow> n \<noteq> []"
  by (auto simp: checkValidFactoryName_def Let_def split: if_splits)

lemma valid_name_trimmed: "checkValidFactoryName n = Inr () \<Longrightarrow> trimmed n = n"
  by (rule trimmed_id) (auto simp: valid_name_not_Nil valid_name_chars)

lemma valid_name_not_excl: "checkValidFactoryName n = Inr () \<Longrightarrow> \<not> startswith n (CHR ''!'')"
  using valid_name_chars [of n "hd n"] valid_name_not_Nil [of n]
  by (cases n) (auto simp: startswith_def)

lemma msg_not_valid_neq: "msg_not_valid n \<noteq> msg_more_than_one a b"
  by (simp add: msg_not_valid_def msg_more_than_one_def)

lemma msg_req_excl_neq: "msg_required_and_excluded n \<noteq> msg_more_than_one a b"
  by (simp add: msg_required_and_excluded_def msg_more_than_one_def)

lemma doParse_loop_excl_ok:
  "startswith e (CHR ''!'') \<Longrightarrow> checkValidFactoryName (trimmed (substr e 1)) = Inr ()
   \<Longrightarrow> doParse_loop res (e # es)
       = doParse_loop (res\<lparr>m_excluded :=
             (if excludes res (trimmed (substr e 1)) then m_excluded res
              else m_excluded res @ [trimmed (substr e 1)])\<rparr>) es"
  by (simp add: Let_def)

lemma doParse_loop_excl_bad:
  "startswith e (CHR ''!'') \<Longrightarrow> checkValidFactoryName (trimmed (substr e 1)) \<noteq> Inr ()
   \<Longrightarrow> doParse_loop res (e # es) = Inl (BadInput (msg_not_valid (trimmed (substr e 1))))"
  using checkValid_cases [of "trimmed (substr e 1)"] by (auto simp: Let_def)

lemma doParse_loop_req_bad:
  "\<not> startswith e (CHR ''!'') \<Longrightarrow> checkValidFactoryName e \<noteq> Inr ()
   \<Longrightarrow> doParse_loop res (e # es) = Inl (BadInput (msg_not_valid e))"
  using checkValid_cases [of e] by auto

lemma doParse_loop_req_second:
  "\<not> startswith e (CHR ''!'') \<Longrightarrow> checkValidFactoryName e = Inr ()
   \<Longrightarrow> m_specific res \<noteq> []
   \<Longrightarrow> doParse_loop res (e # es) = Inl (BadInput (msg_more_than_one (m_specific res) e))"
  by simp

lemma doParse_loop_req_first:
  "\<not> startswith e (CHR ''!'') \<Longrightarrow> checkValidFactoryName e = Inr ()
   \<Longrightarrow> m_specific res = []
   \<Longrightarrow> doParse_loop res (e # es) = doParse_loop (res\<lparr>m_specific := e\<rparr>) es"
  by simp

lemma doParse_loop_second_required:
  "m_specific res \<noteq> [] \<Longrightarrow> \<exists>e \<in> set es. \<not> startswith e (CHR ''!'')
   \<Longrightarrow> \<exists>m. doParse_loop res es = Inl (BadInput m)"
proof (induction es arbitrary: res)
  case Nil
  then show ?case by simp
next
  case (Cons e es)
  show ?case
  proof (cases "startswith e (CHR ''!'')")
    case True
    with Cons.prems have ex: "\<exists>e \<in> set es. \<not> startswith e (CHR ''!'')" by auto
    show ?thesis
    proof (cases "checkValidFactoryName (trimmed (substr e 1)) = Inr ()")
      case False
      with True show ?thesis by (simp add: doParse_loop_excl_bad del: doParse_loop.simps)
    next
      case ok: True
      show ?thesis
        unfolding doParse_loop_excl_ok [OF True ok]
        by (rule Cons.IH) (use Cons.prems(1) ex in simp_all)
    qed
  next
    case False
    show ?thesis
    proof (cases "checkValidFactoryName e = Inr ()")
      case bad: False
      with False show ?thesis by (simp add: doParse_loop_req_bad del: doParse_loop.simps)
    next
      case True
      with False Cons.prems(1) show ?thesis by (simp add: doParse_loop_req_second del: doParse_loop.simps)
    qed
  qed
qed

lemma doParse_loop_two_required:
  "2 \<le> length (filter (\<lambda>e. \<not> startswith e (CHR ''!'')) es)
   \<Longrightarrow> \<exists>m. doParse_loop res es = Inl (BadInput m)"
proof (induction es arbitrary: res)
  case Nil
  then show ?case by simp
next
  case (Cons e es)
  show ?case
  proof (cases "startswith e (CHR ''!'')")
    case True
    with Cons.prems have two: "2 \<le> length (filter (\<lambda>e. \<not> startswith e (CHR ''!'')) es)"
      by simp
    show ?thesis
    proof (cases "checkValidFactoryName (trimmed (substr e 1)) = Inr ()")
      case False
      with True show ?thesis by (simp add: doParse_loop_excl_bad del: doParse_loop.simps)
    next
      case ok: True
      show ?thesis
        unfolding doParse_loop_excl_ok [OF True ok] by (rule Cons.IH [OF two])
    qed
  next
    case False
    with Cons.prems have "filter (\<lambda>e. \<not> startswith e (CHR ''!'')) es \<noteq> []"
      by auto
    then have ex: "\<exists>e \<in> set es. \<not> startswith e (CHR ''!'')"
      by (simp add: filter_empty_conv)
    show ?thesis
    proof (cases "checkValidFactoryName e = Inr ()")
      case bad: False
      with False show ?thesis by (simp add: doParse_loop_req_bad del: doParse_loop.simps)
    next
      case True
      show ?thesis
      proof (cases "m_specific res = []")
        case empty: True
        have "m_specific (res\<lparr>m_specific := e\<rparr>) \<noteq> []"
          using valid_name_not_Nil [OF True] by simp
        from doParse_loop_second_required [OF this ex] show ?thesis
          by (simp only: doParse_loop_req_first [OF False True empty])
      next
        case nonempty: False
        with False True show ?thesis by (simp add: doParse_loop_req_second del: doParse_loop.simps)
      qed
    qed
  qed
qed

lemma doParse_loop_excluded_prefix:
  "\<forall>e \<in> set pre. startswith e (CHR ''!'')
       \<and> checkValidFactoryName (trimmed (substr e 1)) = Inr ()
   \<Longrightarrow> \<exists>ex. doParse_loop res (pre @ es) = doParse_loop (res\<lparr>m_excluded := ex\<rparr>) es"
proof (induction pre arbitrary: res)
  case Nil
  have "res = res\<lparr>m_excluded := m_excluded res\<rparr>" by simp
  then show ?case by (metis append_Nil)
next
  case (Cons e pre)
  then have e: "startswith e (CHR ''!'')" "checkValidFactoryName (trimmed (substr e 1)) = Inr ()"
    and pre: "\<forall>e \<in> set pre. startswith e (CHR ''!'')
       \<and> checkValidFactoryName (trimmed (substr e 1)) = Inr ()"
    by auto
  define res' where "res' = res\<lparr>m_excluded :=
             (if excludes res (trimmed (substr e 1)) then m_excluded res
              else m_excluded res @ [trimmed (substr e 1)])\<rparr>"
  from Cons.IH [OF pre, of res'] obtain ex
    where "doParse_loop res' (pre @ es) = doParse_loop (res'\<lparr>m_excluded := ex\<rparr>) es" by blast
  moreover have "res'\<lparr>m_excluded := ex\<rparr> = res\<lparr>m_excluded := ex\<rparr>"
    by (simp add: res'_def)
  moreover have "doParse_loop res ((e # pre) @ es) = doParse_loop res' (pre @ es)"
    using doParse_loop_excl_ok [OF e] by (simp add: res'_def)
  ultimately show ?case by metis
qed

lemma doParse_loop_names_both:
  assumes pre: "\<forall>e \<in> set pre. startswith e (CHR ''!'')
                  \<and> checkValidFactoryName (trimmed (substr e 1)) = Inr ()"
    and mid: "\<forall>e \<in> set mid. startswith e (CHR ''!'')
                  \<and> checkValidFactoryName (trimmed (substr e 1)) = Inr ()"
    and a: "\<not> startswith a (CHR ''!'')" "checkValidFactoryName a = Inr ()"
    and b: "\<not> startswith b (CHR ''!'')" "checkValidFactoryName b = Inr ()"
    and res: "m_specific res = []"
  shows "doParse_loop res (pre @ a # mid @ b # rest) = Inl (BadInput (msg_more_than_one a b))"
proof -
  from doParse_loop_excluded_prefix [OF pre] obtain ex1 where
    1: "doParse_loop res (pre @ a # mid @ b # rest)
        = doParse_loop (res\<lparr>m_excluded := ex1\<rparr>) (a # mid @ b # rest)" by blast
  have 2: "doParse_loop (res\<lparr>m_excluded := ex1\<rparr>) (a # mid @ b # rest)
        = doParse_loop (res\<lparr>m_excluded := ex1, m_specific := a\<rparr>) (mid @ b # rest)"
    using a res by (simp add: doParse_loop_req_first del: doParse_loop.simps)
  from doParse_loop_excluded_prefix [OF mid] obtain ex2 where
    3: "doParse_loop (res\<lparr>m_excluded := ex1, m_specific := a\<rparr>) (mid @ b # rest)
        = doParse_loop (res\<lparr>m_excluded := ex1, m_specific := a, m_excluded := ex2\<rparr>) (b # rest)"
    by blast
  have 4: "doParse_loop (res\<lparr>m_excluded := ex1, m_specific := a, m_excluded := ex2\<rparr>) (b # rest)
        = Inl (BadInput (msg_more_than_one a b))"
    using b valid_name_not_Nil [OF a(2)]
    by (simp add: doParse_loop_req_second del: doParse_loop.simps)
  show ?thesis by (simp only: 1 2 3 4)
qed

lemma doParse_loop_no_required:
  "\<forall>e \<in> set es. startswith e (CHR ''!'')
   \<Longrightarrow> doParse_loop res es \<noteq> Inl (BadInput (msg_more_than_one a b))"
proof (induction es arbitrary: res)
  case Nil
  then show ?case by simp
next
  case (Cons e es)
  then have e: "startswith e (CHR ''!'')" and es: "\<forall>e \<in> set es. startswith e (CHR ''!'')"
    by auto
  show ?case
  proof (cases "checkValidFactoryName (trimmed (substr e 1)) = Inr ()")
    case False
    with e show ?thesis by (simp add: doParse_loop_excl_bad msg_not_valid_neq del: doParse_loop.simps)
  next
    case True
    show ?thesis
      unfolding doParse_loop_excl_ok [OF e True] by (rule Cons.IH [OF es])
  qed
qed

lemma doParse_loop_one_required:
  "m_specific res = [] \<Longrightarrow> length (filter (\<lambda>e. \<not> startswith e (CHR ''!'')) es) \<le> 1
   \<Longrightarrow> doParse_loop res es \<noteq> Inl (BadInput (msg_more_than_one a b))"
proof (induction es arbitrary: res)
  case Nil
  then show ?case by simp
next
  case (Cons e es)
  show ?case
  proof (cases "startswith e (CHR ''!'')")
    case True
    with Cons.prems have le: "length (filter (\<lambda>e. \<not> startswith e (CHR ''!'')) es) \<le> 1"
      by simp
    show ?thesis
    proof (cases "checkValidFactoryName (trimmed (substr e 1)) = Inr ()")
      case False
      with True show ?thesis by (simp add: doParse_loop_excl_bad msg_not_valid_neq del: doParse_loop.simps)
    next
      case ok: True
      show ?thesis
        unfolding doParse_loop_excl_ok [OF True ok]
        by (rule Cons.IH) (use Cons.prems(1) le in simp_all)
    qed
  next
    case False
    with Cons.prems have "filter (\<lambda>e. \<not> startswith e (CHR ''!'')) es = []" by simp
    then have none: "\<forall>e \<in> set es. startswith e (CHR ''!'')"
      by (simp add: filter_empty_conv)
    show ?thesis
    proof (cases "checkValidFactoryName e = Inr ()")
      case bad: False
      with False show ?thesis by (simp add: doParse_loop_req_bad msg_not_valid_neq del: doParse_loop.simps)
    next
      case True
      show ?thesis
        unfolding doParse_loop_req_first [OF False True Cons.prems(1)]
        by (rule doParse_loop_no_required [OF none])
    qed
  qed
qed


lemma excludes_iff: "excludes r fn \<longleftrightarrow> fn \<in> set (m_excluded r)"
  by (auto simp: excludes_def list_ex_iff)

lemma doParse_loop_names_ok:
  "doParse_loop res es = Inr r \<Longrightarrow> names_ok res \<Longrightarrow> names_ok r"
proof (induction es arbitrary: res)
  case Nil
  then show ?case by simp
next
  case (Cons e es)
  show ?case
  proof (cases "startswith e (CHR ''!'')")
    case True
    show ?thesis
    proof (cases "checkValidFactoryName (trimmed (substr e 1)) = Inr ()")
      case False
      with True Cons.prems(1) show ?thesis
        by (simp add: doParse_loop_excl_bad del: doParse_loop.simps)
    next
      case ok: True
      let ?res = "res\<lparr>m_excluded :=
             (if excludes res (trimmed (substr e 1)) then m_excluded res
              else m_excluded res @ [trimmed (substr e 1)])\<rparr>"
      from Cons.prems(1) have "doParse_loop ?res es = Inr r"
        by (simp only: doParse_loop_excl_ok [OF True ok])
      moreover from Cons.prems(2) ok have "names_ok ?res"
        by (simp add: names_ok_def excludes_iff)
      ultimately show ?thesis by (rule Cons.IH)
    qed
  next
    case False
    show ?thesis
    proof (cases "checkValidFactoryName e = Inr ()")
      case bad: False
      with False Cons.prems(1) show ?thesis
        by (simp add: doParse_loop_req_bad del: doParse_loop.simps)
    next
      case True
      show ?thesis
      proof (cases "m_specific res = []")
        case empty: True
        from Cons.prems(1) have "doParse_loop (res\<lparr>m_specific := e\<rparr>) es = Inr r"
          by (simp only: doParse_loop_req_first [OF False True empty])
        moreover from Cons.prems(2) True have "names_ok (res\<lparr>m_specific := e\<rparr>)"
          by (simp add: names_ok_def)
        ultimately show ?thesis by (rule Cons.IH)
      next
        case nonempty: False
        with False True Cons.prems(1) show ?thesis
          by (simp add: doParse_loop_req_second del: doParse_loop.simps)
      qed
    qed
  qed
qed

lemma doParse_loop_rebuild:
  "list_all (\<lambda>n. checkValidFactoryName n = Inr ()) xs \<Longrightarrow> distinct (acc @ xs)
   \<Longrightarrow> doParse_loop \<lparr>m_specific = s, m_excluded = acc\<rparr> (map ((#) (CHR ''!'')) xs)
       = Inr \<lparr>m_specific = s, m_excluded = acc @ xs\<rparr>"
proof (induction xs arbitrary: acc)
  case Nil
  then show ?case by simp
next
  case (Cons x xs)
  then have x: "checkValidFactoryName x = Inr ()" and xs: "list_all (\<lambda>n. checkValidFactoryName n = Inr ()) xs"
    and d: "distinct ((acc @ [x]) @ xs)" and notin: "x \<notin> set acc"
    by auto
  have sub: "trimmed (substr (CHR ''!'' # x) 1) = x"
    by (simp add: substr_def valid_name_trimmed [OF x])
  have st: "startswith (CHR ''!'' # x) (CHR ''!'')" by (simp add: startswith_def)
  note step = doParse_loop_excl_ok [of "CHR ''!'' # x" "\<lparr>m_specific = s, m_excluded = acc\<rparr>"
        "map ((#) (CHR ''!'')) xs", unfolded sub, OF st x]
  have st: "startswith (CHR ''!'' # x) (CHR ''!'')" by (simp add: startswith_def)
  have "doParse_loop \<lparr>m_specific = s, m_excluded = acc\<rparr> (map ((#) (CHR ''!'')) (x # xs))
        = doParse_loop \<lparr>m_specific = s, m_excluded = acc @ [x]\<rparr> (map ((#) (CHR ''!'')) xs)"
    using step notin by (simp add: excludes_iff del: doParse_loop.simps)
  also have "\<dots> = Inr \<lparr>m_specific = s, m_excluded = (acc @ [x]) @ xs\<rparr>"
    by (rule Cons.IH [OF xs d])
  finally show ?case by simp
qed

lemma entries_to_string:
  assumes "names_ok r"
  shows "splitTrimmedNoEmpty (CHR ''@'') (to_string r)
         = (if m_specific r = [] then [] else [m_specific r])
           @ map ((#) (CHR ''!'')) (m_excluded r)"
proof -
  let ?ps = "(if m_specific r = [] then [] else [m_specific r])
           @ map ((#) (CHR ''!'')) (m_excluded r)"
  have ts: "to_string r = joinstr ?ps [CHR ''@'']" by (simp add: to_string_def)
  from assms have ex: "\<forall>n \<in> set (m_excluded r). checkValidFactoryName n = Inr ()"
    and sp: "m_specific r \<noteq> [] \<longrightarrow> checkValidFactoryName (m_specific r) = Inr ()"
    by (auto simp: names_ok_def list_all_iff)
  have valid_piece: "q \<noteq> [] \<and> trimmed q = q \<and> (\<forall>c \<in> set q. c \<noteq> CHR ''@'')"
    if "checkValidFactoryName q = Inr ()" for q
    using that valid_name_chars [OF that] valid_name_not_Nil [OF that] valid_name_trimmed [OF that]
    by blast
  have excl_piece: "q \<noteq> [] \<and> trimmed q = q \<and> (\<forall>c \<in> set q. c \<noteq> CHR ''@'')"
    if v: "checkValidFactoryName n = Inr ()" and q: "q = CHR ''!'' # n" for q n
  proof -
    have "last q \<in> set n" using q valid_name_not_Nil [OF v] by simp
    then have "\<not> isWhiteSpace (last q)" using valid_name_chars [OF v] by blast
    moreover have "\<not> isWhiteSpace (hd q)" using q by (simp add: isWhiteSpace_def)
    moreover have "q \<noteq> []" using q by simp
    ultimately have "trimmed q = q" by (intro trimmed_id)
    moreover have "\<forall>c \<in> set n. c \<noteq> CHR ''@''" using valid_name_chars [OF v] by blast
    ultimately show ?thesis using q by simp
  qed
  have piece: "q \<noteq> [] \<and> trimmed q = q \<and> (\<forall>c \<in> set q. c \<noteq> CHR ''@'')" if "q \<in> set ?ps" for q
  proof (cases "q = m_specific r \<and> m_specific r \<noteq> []")
    case True
    with sp have "checkValidFactoryName q = Inr ()" by simp
    then show ?thesis by (rule valid_piece)
  next
    case False
    with that have "q \<in> (#) (CHR ''!'') ` set (m_excluded r)"
      by (simp split: if_splits)
    then obtain n where n: "n \<in> set (m_excluded r)" "q = CHR ''!'' # n"
      by blast
    with ex have v: "checkValidFactoryName n = Inr ()" by simp
    from v n(2) show ?thesis by (rule excl_piece)
  qed
  show ?thesis
  proof (cases "?ps = []")
    case True
    then show ?thesis
      by (simp add: ts splitTrimmedNoEmpty_def trimmed_def del: append_is_Nil_conv)
  next
    case False
    have "split_on (\<lambda>c. c = CHR ''@'') (joinstr ?ps [CHR ''@'']) = ?ps"
    proof (rule split_on_joinstr [OF False])
      show "\<forall>q \<in> set ?ps. \<forall>c \<in> set q. \<not> c = CHR ''@''" using piece by blast
    qed simp
    moreover have "map trimmed ?ps = ?ps"
      by (rule map_idI) (use piece in blast)
    moreover have "filter (\<lambda>x. x \<noteq> []) ?ps = ?ps"
      by (rule filter_True) (use piece in blast)
    ultimately show ?thesis
      by (simp only: ts splitTrimmedNoEmpty_def)
  qed
qed

lemma doParse_Inr_iff:
  "doParse sv = Inr r \<longleftrightarrow>
     doParse_loop \<lparr>m_specific = [], m_excluded = []\<rparr> (splitTrimmedNoEmpty (CHR ''@'') sv) = Inr r
     \<and> \<not> (m_specific r \<noteq> [] \<and> excludes r (m_specific r))"
  by (auto simp: doParse_def split: sum.splits)


lemma doParse_loop_first_invalid:
  "\<forall>e \<in> set pre. checkValidFactoryName (entry_name e) = Inr ()
   \<Longrightarrow> length (filter (\<lambda>e. \<not> startswith e (CHR ''!'')) pre)
         + (if m_specific res = [] then 0 else 1) \<le> 1
   \<Longrightarrow> checkValidFactoryName (entry_name x) \<noteq> Inr ()
   \<Longrightarrow> doParse_loop res (pre @ x # rest) = Inl (BadInput (msg_not_valid (entry_name x)))"
proof (induction pre arbitrary: res)
  case Nil
  show ?case
  proof (cases "startswith x (CHR ''!'')")
    case True
    with Nil.prems(3) show ?thesis
      by (simp add: entry_name_def doParse_loop_excl_bad del: doParse_loop.simps)
  next
    case False
    with Nil.prems(3) show ?thesis
      by (simp add: entry_name_def doParse_loop_req_bad del: doParse_loop.simps)
  qed
next
  case (Cons e pre)
  then have pre: "\<forall>e \<in> set pre. checkValidFactoryName (entry_name e) = Inr ()" by simp
  show ?case
  proof (cases "startswith e (CHR ''!'')")
    case True
    with Cons.prems(1) have ok: "checkValidFactoryName (trimmed (substr e 1)) = Inr ()"
      by (simp add: entry_name_def)
    let ?res = "res\<lparr>m_excluded :=
             (if excludes res (trimmed (substr e 1)) then m_excluded res
              else m_excluded res @ [trimmed (substr e 1)])\<rparr>"
    from Cons.prems(2) True
    have "length (filter (\<lambda>e. \<not> startswith e (CHR ''!'')) pre)
         + (if m_specific ?res = [] then 0 else 1) \<le> 1" by simp
    from Cons.IH [OF pre this Cons.prems(3)] show ?thesis
      by (simp add: doParse_loop_excl_ok [OF True ok] del: doParse_loop.simps)
  next
    case False
    with Cons.prems(1) have ok: "checkValidFactoryName e = Inr ()"
      by (simp add: entry_name_def)
    from Cons.prems(2) False have empty: "m_specific res = []"
      and none: "length (filter (\<lambda>e. \<not> startswith e (CHR ''!'')) pre) = 0"
      by (simp_all split: if_splits)
    have "m_specific (res\<lparr>m_specific := e\<rparr>) \<noteq> []"
      using valid_name_not_Nil [OF ok] by simp
    with none have "length (filter (\<lambda>e. \<not> startswith e (CHR ''!'')) pre)
         + (if m_specific (res\<lparr>m_specific := e\<rparr>) = [] then 0 else 1) \<le> 1" by simp
    from Cons.IH [OF pre this Cons.prems(3)] show ?thesis
      by (simp add: doParse_loop_req_first [OF False ok empty] del: doParse_loop.simps)
  qed
qed

lemmas fact_eval =
  doParse_def splitTrimmedNoEmpty_def trimmed_def startswith_def substr_def
  checkValidFactoryName_def isAlphaNumeric_def isWhiteSpace_def excludes_def Let_def
  msg_not_valid_def msg_more_than_one_def msg_required_and_excluded_def dquote_def

text \<open>
  C5, as the code has it. An input with two or more entries that do not start with "!"
  is always rejected with a BadInput error. The entries are checked in order, and an
  entry whose name is not a valid factory name is reported first. So the message names
  the two required entries when every entry up to the second required one is valid; and
  when an entry with an invalid name comes after valid entries of which at most one is
  required, the error is "Not a valid factory name" with that name. With at most one
  required entry the "more than one" error is not raised.
\<close>

theorem doParse_more_than_one:
  "(2 \<le> length (filter (\<lambda>e. \<not> startswith e (CHR ''!'')) (splitTrimmedNoEmpty (CHR ''@'') sv))
      \<longrightarrow> (\<exists>m. doParse sv = Inl (BadInput m)))
   \<and> (splitTrimmedNoEmpty (CHR ''@'') sv = pre @ a # mid @ b # rest
        \<and> (\<forall>e \<in> set (pre @ mid). startswith e (CHR ''!'')
                \<and> checkValidFactoryName (trimmed (substr e 1)) = Inr ())
        \<and> \<not> startswith a (CHR ''!'') \<and> checkValidFactoryName a = Inr ()
        \<and> \<not> startswith b (CHR ''!'') \<and> checkValidFactoryName b = Inr ()
      \<longrightarrow> doParse sv = Inl (BadInput (msg_more_than_one a b)))
   \<and> (splitTrimmedNoEmpty (CHR ''@'') sv = good @ x # others
        \<and> (\<forall>e \<in> set good. checkValidFactoryName (entry_name e) = Inr ())
        \<and> length (filter (\<lambda>e. \<not> startswith e (CHR ''!'')) good) \<le> 1
        \<and> checkValidFactoryName (entry_name x) \<noteq> Inr ()
      \<longrightarrow> doParse sv = Inl (BadInput (msg_not_valid (entry_name x))))
   \<and> (length (filter (\<lambda>e. \<not> startswith e (CHR ''!'')) (splitTrimmedNoEmpty (CHR ''@'') sv)) \<le> 1
      \<longrightarrow> (\<forall>x y. doParse sv \<noteq> Inl (BadInput (msg_more_than_one x y))))"
proof (intro conjI impI allI)
  assume "2 \<le> length (filter (\<lambda>e. \<not> startswith e (CHR ''!'')) (splitTrimmedNoEmpty (CHR ''@'') sv))"
  from doParse_loop_two_required [OF this, of "\<lparr>m_specific = [], m_excluded = []\<rparr>"]
  show "\<exists>m. doParse sv = Inl (BadInput m)"
    by (auto simp: doParse_def)
next
  assume h: "splitTrimmedNoEmpty (CHR ''@'') sv = pre @ a # mid @ b # rest
        \<and> (\<forall>e \<in> set (pre @ mid). startswith e (CHR ''!'')
                \<and> checkValidFactoryName (trimmed (substr e 1)) = Inr ())
        \<and> \<not> startswith a (CHR ''!'') \<and> checkValidFactoryName a = Inr ()
        \<and> \<not> startswith b (CHR ''!'') \<and> checkValidFactoryName b = Inr ()"
  then have pre: "\<forall>e \<in> set pre. startswith e (CHR ''!'')
                  \<and> checkValidFactoryName (trimmed (substr e 1)) = Inr ()"
    and mid: "\<forall>e \<in> set mid. startswith e (CHR ''!'')
                  \<and> checkValidFactoryName (trimmed (substr e 1)) = Inr ()"
    by auto
  have "doParse_loop \<lparr>m_specific = [], m_excluded = []\<rparr> (pre @ a # mid @ b # rest)
        = Inl (BadInput (msg_more_than_one a b))"
    by (rule doParse_loop_names_both [OF pre mid]) (use h in simp_all)
  with h show "doParse sv = Inl (BadInput (msg_more_than_one a b))"
    by (simp add: doParse_def)
next
  assume h: "splitTrimmedNoEmpty (CHR ''@'') sv = good @ x # others
        \<and> (\<forall>e \<in> set good. checkValidFactoryName (entry_name e) = Inr ())
        \<and> length (filter (\<lambda>e. \<not> startswith e (CHR ''!'')) good) \<le> 1
        \<and> checkValidFactoryName (entry_name x) \<noteq> Inr ()"
  then have good: "\<forall>e \<in> set good. checkValidFactoryName (entry_name e) = Inr ()"
    and one: "length (filter (\<lambda>e. \<not> startswith e (CHR ''!'')) good)
         + (if m_specific \<lparr>m_specific = [], m_excluded = []\<rparr> = [] then 0 else 1) \<le> 1"
    and bad: "checkValidFactoryName (entry_name x) \<noteq> Inr ()"
    by simp_all
  from doParse_loop_first_invalid [OF good one bad, of others] h
  show "doParse sv = Inl (BadInput (msg_not_valid (entry_name x)))"
    by (simp add: doParse_def)
next
  fix x y
  assume "length (filter (\<lambda>e. \<not> startswith e (CHR ''!'')) (splitTrimmedNoEmpty (CHR ''@'') sv)) \<le> 1"
  from doParse_loop_one_required [OF _ this, of "\<lparr>m_specific = [], m_excluded = []\<rparr>" x y]
  show "doParse sv \<noteq> Inl (BadInput (msg_more_than_one x y))"
    by (auto simp: doParse_def msg_req_excl_neq split: sum.splits)
qed

theorem doParse_more_than_one_witness:
  "splitTrimmedNoEmpty (CHR ''@'') ''a@!c@b'' = [''a'', ''!c'', ''b'']
   \<and> doParse ''a@!c@b'' = Inl (BadInput (msg_more_than_one ''a'' ''b''))
   \<and> splitTrimmedNoEmpty (CHR ''@'') ''a@!b c@d'' = [''a'', ''!b c'', ''d'']
   \<and> doParse ''a@!b c@d'' = Inl (BadInput (msg_not_valid ''b c''))
   \<and> splitTrimmedNoEmpty (CHR ''@'') ''a@!a'' = [''a'', ''!a'']
   \<and> doParse ''a@!a'' \<noteq> Inl (BadInput (msg_more_than_one ''a'' ''a''))"
proof -
  have 1: "splitTrimmedNoEmpty (CHR ''@'') ''a@!c@b'' = [''a'', ''!c'', ''b'']"
    by (simp add: fact_eval)
  have 2: "splitTrimmedNoEmpty (CHR ''@'') ''a@!a'' = [''a'', ''!a'']"
    by (simp add: fact_eval)
  have 3: "splitTrimmedNoEmpty (CHR ''@'') ''a@!b c@d'' = [''a'', ''!b c'', ''d'']"
    by (simp add: fact_eval)
  have "doParse ''a@!c@b'' = Inl (BadInput (msg_more_than_one ''a'' ''b''))"
    using doParse_more_than_one [of "''a@!c@b''" "[]" "''a''" "[''!c'']" "''b''" "[]"]
    by (simp add: 1) (simp add: fact_eval)
  moreover have "doParse ''a@!b c@d'' = Inl (BadInput (msg_not_valid ''b c''))"
    using doParse_more_than_one
      [of "''a@!b c@d''" _ _ _ _ _ "[''a'']" "''!b c''" "[''d'']"]
    by (simp add: 3) (simp add: fact_eval entry_name_def)
  moreover have "doParse ''a@!a'' \<noteq> Inl (BadInput (msg_more_than_one ''a'' ''a''))"
    using doParse_more_than_one [of "''a@!a''"]
    by (simp add: 2) (simp add: fact_eval)
  ultimately show ?thesis using 1 2 3 by simp
qed

text \<open>
  The claim as stated fails at "q@?": both entries are required ones, and the error
  names only "?", the entry that is not a valid factory name.
\<close>

theorem doParse_more_than_one_counterexample:
  "splitTrimmedNoEmpty (CHR ''@'') ''q@?'' = [''q'', ''?'']
   \<and> \<not> startswith ''q'' (CHR ''!'') \<and> \<not> startswith ''?'' (CHR ''!'')
   \<and> doParse ''q@?''
       = Inl (BadInput (''Not a valid factory name: '' @ [CHR 0x22] @ ''?'' @ [CHR 0x22]))
   \<and> CHR ''q'' \<notin> set (''Not a valid factory name: '' @ [CHR 0x22] @ ''?'' @ [CHR 0x22])
   \<and> doParse ''q@?'' \<noteq> Inl (BadInput (msg_more_than_one ''q'' ''?''))"
  by (simp add: fact_eval)

text \<open>
  C7. Rendering an accepted request and parsing the rendering gives the same request
  back: the same specific name and the same excluded names (in the same order).
\<close>

theorem doParse_to_string_roundtrip:
  assumes "doParse sv = Inr r"
  shows "doParse (to_string r) = Inr r"
proof -
  from assms have loop: "doParse_loop \<lparr>m_specific = [], m_excluded = []\<rparr>
                           (splitTrimmedNoEmpty (CHR ''@'') sv) = Inr r"
    and fin: "\<not> (m_specific r \<noteq> [] \<and> excludes r (m_specific r))"
    by (simp_all add: doParse_Inr_iff)
  have "names_ok \<lparr>m_specific = [], m_excluded = []\<rparr>" by (simp add: names_ok_def)
  with loop have ok: "names_ok r" by (rule doParse_loop_names_ok)
  then have all: "list_all (\<lambda>n. checkValidFactoryName n = Inr ()) (m_excluded r)"
    and d: "distinct ([] @ m_excluded r)" by (simp_all add: names_ok_def)
  have r: "r = \<lparr>m_specific = m_specific r, m_excluded = m_excluded r\<rparr>" by simp
  have "doParse_loop \<lparr>m_specific = [], m_excluded = []\<rparr>
          (splitTrimmedNoEmpty (CHR ''@'') (to_string r)) = Inr r"
  proof (cases "m_specific r = []")
    case True
    with doParse_loop_rebuild [OF all d, of "[]"] show ?thesis
      by (simp add: entries_to_string [OF ok])
  next
    case False
    with ok have v: "checkValidFactoryName (m_specific r) = Inr ()"
      by (simp add: names_ok_def)
    have "doParse_loop \<lparr>m_specific = [], m_excluded = []\<rparr>
            (m_specific r # map ((#) (CHR ''!'')) (m_excluded r))
          = doParse_loop \<lparr>m_specific = m_specific r, m_excluded = []\<rparr>
              (map ((#) (CHR ''!'')) (m_excluded r))"
      using doParse_loop_req_first [OF valid_name_not_excl [OF v] v,
          of "\<lparr>m_specific = [], m_excluded = []\<rparr>"] by simp
    with doParse_loop_rebuild [OF all d, of "m_specific r"] False show ?thesis
      by (simp add: entries_to_string [OF ok])
  qed
  with fin show ?thesis by (simp add: doParse_Inr_iff)
qed

theorem doParse_to_string_roundtrip_witness:
  "doParse ''b@!a@ !c@!a'' = Inr \<lparr>m_specific = ''b'', m_excluded = [''a'', ''c'']\<rparr>
   \<and> to_string \<lparr>m_specific = ''b'', m_excluded = [''a'', ''c'']\<rparr> = ''b@!a@!c''
   \<and> doParse ''b@!a@!c'' = Inr \<lparr>m_specific = ''b'', m_excluded = [''a'', ''c'']\<rparr>"
proof -
  have 1: "doParse ''b@!a@ !c@!a'' = Inr \<lparr>m_specific = ''b'', m_excluded = [''a'', ''c'']\<rparr>"
    by (simp add: fact_eval)
  have 2: "to_string \<lparr>m_specific = ''b'', m_excluded = [''a'', ''c'']\<rparr> = ''b@!a@!c''"
    by (simp add: to_string_def)
  from doParse_to_string_roundtrip [OF 1] 1 2 show ?thesis by simp
qed

text \<open>
  A request that \<^verbatim>\<open>doParse\<close> returns never excludes its own specific name, and
  \<^verbatim>\<open>withNoSpecificRequest\<close> and \<^verbatim>\<open>withAdditionalExclude\<close> of another name keep
  that.
\<close>

lemma doParse_not_required_and_excluded:
  "doParse sv = Inr r \<Longrightarrow> hasSpecificRequest r \<Longrightarrow> \<not> excludes r (specificRequest r)"
  by (simp add: doParse_Inr_iff hasSpecificRequest_def specificRequest_def)

lemma withNoSpecificRequest_no_request:
  "\<not> hasSpecificRequest (withNoSpecificRequest r)"
  by (simp add: withNoSpecificRequest_def hasSpecificRequest_def)

lemma withAdditionalExclude_other_name:
  "factname \<noteq> specificRequest r \<Longrightarrow> \<not> excludes r (specificRequest r)
   \<Longrightarrow> \<not> excludes (withAdditionalExclude r factname)
           (specificRequest (withAdditionalExclude r factname))"
  by (auto simp: withAdditionalExclude_def specificRequest_def excludes_iff)

text \<open>
  C1. The claim is that no request obtained from \<^verbatim>\<open>doParse\<close>,
  \<^verbatim>\<open>withAdditionalExclude\<close> and \<^verbatim>\<open>withNoSpecificRequest\<close> excludes its own
  specific name. The code does not keep that: \<^verbatim>\<open>withAdditionalExclude\<close> makes no
  check against the specific name, so from the request parsed from "a", excluding "a"
  gives a request that both requires and excludes "a".
\<close>

theorem withAdditionalExclude_required_and_excluded:
  "doParse ''a'' = Inr \<lparr>m_specific = ''a'', m_excluded = []\<rparr>
   \<and> withAdditionalExclude \<lparr>m_specific = ''a'', m_excluded = []\<rparr> ''a''
       = \<lparr>m_specific = ''a'', m_excluded = [''a'']\<rparr>
   \<and> hasSpecificRequest \<lparr>m_specific = ''a'', m_excluded = [''a'']\<rparr>
   \<and> excludes \<lparr>m_specific = ''a'', m_excluded = [''a'']\<rparr>
        (specificRequest \<lparr>m_specific = ''a'', m_excluded = [''a'']\<rparr>)"
  by (simp add: fact_eval withAdditionalExclude_def hasSpecificRequest_def specificRequest_def)

subsection \<open>The inelas variable and the orientation direction\<close>

text \<open>
  C9. The inelas parser stores "0" for each of the tokens "none", "0", "sterile" and
  "false"; it stores every other non-empty token made of lowercase letters, digits and
  underscores as it is; and it rejects the empty token and every token with another
  character with a BadInput error.
\<close>

theorem inelas_str2val_spec:
  "(sv \<in> {''none'', ''0'', ''sterile'', ''false''} \<longrightarrow> vardef_inelas_str2val sv = Inr ''0'')
   \<and> (sv \<noteq> [] \<and> (\<forall>c \<in> set sv. c \<in> set ''abcdefghijklmnopqrstuvwxyz_0123456789'')
        \<and> sv \<notin> {''none'', ''0'', ''sterile'', ''false''}
      \<longrightarrow> vardef_inelas_str2val sv = Inr sv)
   \<and> (sv = [] \<or> (\<exists>c \<in> set sv. c \<notin> set ''abcdefghijklmnopqrstuvwxyz_0123456789'')
      \<longrightarrow> (\<exists>msg. vardef_inelas_str2val sv = Inl (BadInput msg)))"
proof (intro conjI impI)
  assume "sv \<in> {''none'', ''0'', ''sterile'', ''false''}"
  then show "vardef_inelas_str2val sv = Inr ''0''"
    by (auto simp: vardef_inelas_str2val_def contains_only_def isOneOf_def)
next
  assume a: "sv \<noteq> [] \<and> (\<forall>c \<in> set sv. c \<in> set ''abcdefghijklmnopqrstuvwxyz_0123456789'')
        \<and> sv \<notin> {''none'', ''0'', ''sterile'', ''false''}"
  then have "contains_only sv ''abcdefghijklmnopqrstuvwxyz_0123456789''"
    unfolding contains_only_def list_all_iff by blast
  moreover from a have "\<not> isOneOf sv [''none'', ''0'', ''sterile'', ''false'']"
    by (simp add: isOneOf_def)
  ultimately show "vardef_inelas_str2val sv = Inr sv"
    using a by (simp add: vardef_inelas_str2val_def)
next
  assume a: "sv = [] \<or> (\<exists>c \<in> set sv. c \<notin> set ''abcdefghijklmnopqrstuvwxyz_0123456789'')"
  then have "sv = [] \<or> \<not> contains_only sv ''abcdefghijklmnopqrstuvwxyz_0123456789''"
    unfolding contains_only_def list_all_iff by blast
  then show "\<exists>msg. vardef_inelas_str2val sv = Inl (BadInput msg)"
    by (auto simp: vardef_inelas_str2val_def)
qed

theorem inelas_str2val_spec_witness:
  "vardef_inelas_str2val ''sterile'' = Inr ''0''
   \<and> vardef_inelas_str2val ''freegas'' = Inr ''freegas''
   \<and> (\<exists>msg. vardef_inelas_str2val ''Free gas'' = Inl (BadInput msg))"
proof (intro conjI)
  show "vardef_inelas_str2val ''sterile'' = Inr ''0''"
    using inelas_str2val_spec [of "''sterile''"] by simp
  show "vardef_inelas_str2val ''freegas'' = Inr ''freegas''"
    using inelas_str2val_spec [of "''freegas''"] by simp
  show "\<exists>msg. vardef_inelas_str2val ''Free gas'' = Inl (BadInput msg)"
    using inelas_str2val_spec [of "''Free gas''"] by simp
qed

text \<open>
  C10. Rendering an orientation direction is a total function of the value: it appends
  "@crys:" and the three components for a crystal axis, "@crys_hkl:" and the three
  components for an HKL point, and "@crys:<MISSING>" when the variant is empty; in each
  case "@lab:" and the three lab components end the output.
\<close>

theorem stream_OrientDir_spec:
  "stream_OrientDir fmt os \<lparr>crystal = CrystalAxis a b c, lab = (l0, l1, l2)\<rparr>
     = os @ ''@crys:'' @ fmt a @ '','' @ fmt b @ '','' @ fmt c
          @ ''@lab:'' @ fmt l0 @ '','' @ fmt l1 @ '','' @ fmt l2
   \<and> stream_OrientDir fmt os \<lparr>crystal = HKLPoint a b c, lab = (l0, l1, l2)\<rparr>
     = os @ ''@crys_hkl:'' @ fmt a @ '','' @ fmt b @ '','' @ fmt c
          @ ''@lab:'' @ fmt l0 @ '','' @ fmt l1 @ '','' @ fmt l2
   \<and> stream_OrientDir fmt os \<lparr>crystal = EmptyVariant, lab = (l0, l1, l2)\<rparr>
     = os @ ''@crys:<MISSING>''
          @ ''@lab:'' @ fmt l0 @ '','' @ fmt l1 @ '','' @ fmt l2
   \<and> suffix (''@lab:'' @ fmt (fst (lab od)) @ '','' @ fmt (fst (snd (lab od))) @ '',''
             @ fmt (snd (snd (lab od))))
        (stream_OrientDir fmt os od)"
proof (intro conjI)
  show "suffix (''@lab:'' @ fmt (fst (lab od)) @ '','' @ fmt (fst (snd (lab od))) @ '',''
             @ fmt (snd (snd (lab od))))
        (stream_OrientDir fmt os od)"
    unfolding stream_OrientDir_def fmt3_def Let_def suffix_def
    by (cases "crystal od"; cases "lab od") (auto simp: append_eq_append_conv2)
qed (simp_all add: stream_OrientDir_def fmt3_def)

subsection \<open>Numeric validators\<close>

lemmas dbl_cmp = dbl_ge_def dbl_gt_def dbl_eq_def dbl_0_001_def dbl_1em7_def dbl_1em1_def

lemma temp_unchanged: "vardef_temp_value_validate fmt v = Inr r \<Longrightarrow> r = v"
  by (simp add: vardef_temp_value_validate_def split: if_splits)

lemma dcutoff_unchanged:
  "vardef_dcutoff_value_validate v = Inr r \<Longrightarrow> v \<noteq> Finite (- 1) \<Longrightarrow> r = v"
  by (auto simp: vardef_dcutoff_value_validate_def dbl_eq_def split: if_splits)

lemma dcutoffup_unchanged: "vardef_dcutoffup_value_validate v = Inr r \<Longrightarrow> r = v"
  by (simp add: vardef_dcutoffup_value_validate_def split: if_splits)

lemma sccutoff_unchanged: "vardef_sccutoff_value_validate v = Inr r \<Longrightarrow> r = v"
  by (simp add: vardef_sccutoff_value_validate_def split: if_splits)

lemma mos_unchanged: "vardef_mos_value_validate kPiHalf v = Inr r \<Longrightarrow> r = v"
  by (simp add: vardef_mos_value_validate_def split: if_splits)

lemma dirtol_unchanged: "vardef_dirtol_value_validate kPi v = Inr r \<Longrightarrow> r = v"
  by (simp add: vardef_dirtol_value_validate_def split: if_splits)

lemma mosprec_unchanged: "vardef_mosprec_value_validate v = Inr r \<Longrightarrow> r = v"
  by (simp add: vardef_mosprec_value_validate_def split: if_splits)

lemma vdoslux_unchanged: "vardef_vdoslux_value_validate i = Inr j \<Longrightarrow> j = i"
  by (simp add: vardef_vdoslux_value_validate_def split: if_splits)

lemma lcmode_unchanged: "vardef_lcmode_value_validate i = Inr j \<Longrightarrow> j = i"
  by (simp add: vardef_lcmode_value_validate_def Let_def split: if_splits)

lemmas validate_defs =
  vardef_temp_value_validate_def vardef_dcutoff_value_validate_def
  vardef_dcutoffup_value_validate_def vardef_sccutoff_value_validate_def
  vardef_mos_value_validate_def vardef_dirtol_value_validate_def
  vardef_mosprec_value_validate_def vardef_vdoslux_value_validate_def
  vardef_lcmode_value_validate_def

text \<open>
  C2. The dcutoff validator returns 0 for the input -1 and for the input 0, and returns
  every other input it accepts unchanged. No other validator remaps: each of them
  returns the value it was given whenever it accepts (so none maps -1 to 0).
\<close>

theorem dcutoff_legacy_remap:
  "vardef_dcutoff_value_validate (Finite (- 1)) = Inr (Finite 0)
   \<and> vardef_dcutoff_value_validate (Finite 0) = Inr (Finite 0)
   \<and> (vardef_dcutoff_value_validate v = Inr r \<and> v \<noteq> Finite (- 1) \<longrightarrow> r = v)
   \<and> (vardef_temp_value_validate fmt v = Inr r \<longrightarrow> r = v)
   \<and> (vardef_dcutoffup_value_validate v = Inr r \<longrightarrow> r = v)
   \<and> (vardef_sccutoff_value_validate v = Inr r \<longrightarrow> r = v)
   \<and> (vardef_mos_value_validate kPiHalf v = Inr r \<longrightarrow> r = v)
   \<and> (vardef_dirtol_value_validate kPi v = Inr r \<longrightarrow> r = v)
   \<and> (vardef_mosprec_value_validate v = Inr r \<longrightarrow> r = v)
   \<and> (vardef_vdoslux_value_validate i = Inr j \<longrightarrow> j = i)
   \<and> (vardef_lcmode_value_validate i = Inr j \<longrightarrow> j = i)"
proof (intro conjI impI)
  show "vardef_dcutoff_value_validate (Finite (- 1)) = Inr (Finite 0)"
    by (simp add: vardef_dcutoff_value_validate_def dbl_cmp)
  show "vardef_dcutoff_value_validate (Finite 0) = Inr (Finite 0)"
    by (simp add: vardef_dcutoff_value_validate_def dbl_cmp)
  show "r = v" if "vardef_dcutoff_value_validate v = Inr r \<and> v \<noteq> Finite (- 1)"
    using that dcutoff_unchanged by blast
qed (erule temp_unchanged dcutoffup_unchanged sccutoff_unchanged mos_unchanged
       dirtol_unchanged mosprec_unchanged vdoslux_unchanged lcmode_unchanged)+

theorem dcutoff_legacy_remap_witness:
  "vardef_dcutoff_value_validate (Finite (- 1)) = Inr (Finite 0)
   \<and> vardef_dcutoff_value_validate (Finite 0) = Inr (Finite 0)
   \<and> vardef_dcutoff_value_validate (Finite 2) = Inr (Finite 2)
   \<and> vardef_temp_value_validate (\<lambda>v. []) (Finite (- 1)) = Inr (Finite (- 1))
   \<and> vardef_temp_value_validate (\<lambda>v. []) (Finite (- 1)) \<noteq> Inr (Finite 0)
   \<and> vardef_dcutoffup_value_validate (Finite (- 1)) \<noteq> Inr (Finite 0)
   \<and> vardef_sccutoff_value_validate (Finite (- 1)) \<noteq> Inr (Finite 0)
   \<and> vardef_mos_value_validate (Finite 2) (Finite (- 1)) \<noteq> Inr (Finite 0)
   \<and> vardef_dirtol_value_validate (Finite 4) (Finite (- 1)) \<noteq> Inr (Finite 0)
   \<and> vardef_mosprec_value_validate (Finite (- 1)) \<noteq> Inr (Finite 0)
   \<and> vardef_vdoslux_value_validate (- 1) \<noteq> Inr 0
   \<and> vardef_lcmode_value_validate (- 1) = Inr (- 1)"
proof -
  have 1: "vardef_dcutoff_value_validate (Finite 2) = Inr (Finite 2)"
    "vardef_temp_value_validate (\<lambda>v. []) (Finite (- 1)) = Inr (Finite (- 1))"
    "vardef_lcmode_value_validate (- 1) = Inr (- 1)"
    by (simp_all add: validate_defs Let_def dbl_cmp)
  from dcutoff_legacy_remap
    [of "Finite (- 1)" "Finite 0" "\<lambda>v. []" "Finite 2" "Finite 4" "- 1" 0]
  show ?thesis using 1 by simp
qed

text \<open>
  C3, as the code has it. The temp validator accepts every value from 0.001 to 1e6, the
  two bounds included, and returns it unchanged; it also accepts -1, the value that
  stands for the default temperature; it rejects every other value (a NaN and the
  infinities included) with a BadInput error.
\<close>

theorem temp_value_validate_range:
  "(dbl_le dbl_0_001 v \<and> dbl_le v (Finite 1000000)
      \<longrightarrow> vardef_temp_value_validate fmt v = Inr v)
   \<and> vardef_temp_value_validate fmt dbl_0_001 = Inr dbl_0_001
   \<and> vardef_temp_value_validate fmt (Finite 1000000) = Inr (Finite 1000000)
   \<and> vardef_temp_value_validate fmt (Finite (- 1)) = Inr (Finite (- 1))
   \<and> (v \<noteq> Finite (- 1) \<and> \<not> (dbl_le dbl_0_001 v \<and> dbl_le v (Finite 1000000))
      \<longrightarrow> (\<exists>m. vardef_temp_value_validate fmt v = Inl (BadInput m)))"
proof (intro conjI impI)
  assume "dbl_le dbl_0_001 v \<and> dbl_le v (Finite 1000000)"
  then show "vardef_temp_value_validate fmt v = Inr v"
    by (simp add: vardef_temp_value_validate_def dbl_ge_def)
next
  assume "v \<noteq> Finite (- 1) \<and> \<not> (dbl_le dbl_0_001 v \<and> dbl_le v (Finite 1000000))"
  then show "\<exists>m. vardef_temp_value_validate fmt v = Inl (BadInput m)"
    by (auto simp add: vardef_temp_value_validate_def dbl_ge_def dbl_eq_def)
qed (simp_all add: vardef_temp_value_validate_def dbl_cmp)

text \<open>
  The witness: 293.15 (written as 5863 / 20) is accepted; the double nearest to 0.0009,
  which is \<open>4150517416584649 / 2^62\<close>, 1000001 and a NaN are rejected.
\<close>

theorem temp_value_validate_range_witness:
  "vardef_temp_value_validate (\<lambda>v. []) (Finite (5863 / 20)) = Inr (Finite (5863 / 20))
   \<and> (\<exists>m. vardef_temp_value_validate (\<lambda>v. []) (Finite (4150517416584649 / 2 ^ 62))
            = Inl (BadInput m))
   \<and> (\<exists>m. vardef_temp_value_validate (\<lambda>v. []) (Finite 1000001) = Inl (BadInput m))
   \<and> (\<exists>m. vardef_temp_value_validate (\<lambda>v. []) NaN = Inl (BadInput m))"
proof (intro conjI)
  show "vardef_temp_value_validate (\<lambda>v. []) (Finite (5863 / 20)) = Inr (Finite (5863 / 20))"
    using temp_value_validate_range [of "Finite (5863 / 20)" "\<lambda>v. []"]
    by (simp add: dbl_cmp)
  show "\<exists>m. vardef_temp_value_validate (\<lambda>v. []) (Finite (4150517416584649 / 2 ^ 62))
            = Inl (BadInput m)"
    using temp_value_validate_range [of "Finite (4150517416584649 / 2 ^ 62)" "\<lambda>v. []"]
    by (simp add: dbl_cmp)
  show "\<exists>m. vardef_temp_value_validate (\<lambda>v. []) (Finite 1000001) = Inl (BadInput m)"
    using temp_value_validate_range [of "Finite 1000001" "\<lambda>v. []"]
    by (simp add: dbl_cmp)
  show "\<exists>m. vardef_temp_value_validate (\<lambda>v. []) NaN = Inl (BadInput m)"
    using temp_value_validate_range [of NaN "\<lambda>v. []"]
    by (simp add: dbl_cmp)
qed

text \<open>
  The claim as stated fails at -1: the value lies strictly below the range, and the
  validator accepts it.
\<close>

theorem temp_value_validate_counterexample:
  "dbl_lt (Finite (- 1)) dbl_0_001
   \<and> vardef_temp_value_validate (\<lambda>v. []) (Finite (- 1)) = Inr (Finite (- 1))"
  by (simp add: vardef_temp_value_validate_def dbl_cmp)

subsection \<open>The table of variables\<close>

lemma name2Idx_found:
  "nm \<in> set (map name vs)
   \<Longrightarrow> \<exists>i. constexpr_name2Idx vs nm = Some i \<and> i < length vs \<and> name (vs ! i) = nm"
  by (induction vs) auto

lemma length_varlist: "length varlist = 20"
  by (simp add: varlist_def)

text \<open>
  C8. For every name of the table, the identifier found for the name is an index of the
  table, and the name of that identifier is the name looked up.
\<close>

theorem varName_of_varIdFromName:
  assumes "nm \<in> set (map name varlist)"
  shows "\<exists>vid. constexpr_varIdFromName nm = Some vid \<and> varName vid = Some nm"
proof -
  from name2Idx_found [OF assms] obtain i where
    i: "constexpr_name2Idx varlist nm = Some i" "i < length varlist" "name (varlist ! i) = nm"
    by blast
  then have "i < 20" by (simp add: length_varlist)
  then have "unat (of_nat i :: 32 word) = i"
    by (simp add: unat_of_nat take_bit_nat_eq_self)
  with i show ?thesis
    by (simp add: constexpr_varIdFromName_def constexpr_varName2Idx_def varName_def
        enumAsInt_def)
qed

theorem varName_of_varIdFromName_witness:
  "''temp'' \<in> set (map name varlist)
   \<and> constexpr_varIdFromName ''temp'' = Some 18 \<and> varName 18 = Some ''temp''"
proof -
  have 1: "''temp'' \<in> set (map name varlist)"
    by (simp add: varlist_def make_varinfo_def)
  have 2: "constexpr_varIdFromName ''temp'' = Some 18"
    by (simp add: constexpr_varIdFromName_def constexpr_varName2Idx_def varlist_def
        make_varinfo_def)
  from varName_of_varIdFromName [OF 1] 1 2 show ?thesis by simp
qed

subsection \<open>The atomdb variable\<close>

lemma strreplace_colon: "strreplace s '':'' '' '' = map colon_to_blank s"
proof (induction s)
  case Nil
  show ?case by (subst strreplace.simps) simp
next
  case (Cons c s)
  show ?case
  proof (cases "c = CHR '':''")
    case True
    then show ?thesis
      by (subst strreplace.simps) (simp add: Cons colon_to_blank_def)
  next
    case False
    then show ?thesis
      by (subst strreplace.simps) (simp add: Cons colon_to_blank_def)
  qed
qed

lemma isWhiteSpace_colon_to_blank: "isWhiteSpace (colon_to_blank c) = is_sep c"
  by (auto simp: colon_to_blank_def is_sep_def isWhiteSpace_def)

lemma atomdb_tokens_Nil: "atomdb_tokens [] = []"
  by (simp add: atomdb_tokens_def strreplace_colon split_ws_def)

lemma atomdb_tokens_append_sep:
  "is_sep c \<Longrightarrow> atomdb_tokens (u @ c # v) = atomdb_tokens u @ atomdb_tokens v"
  by (simp add: atomdb_tokens_def strreplace_colon split_ws_def split_on_append_sep
      isWhiteSpace_colon_to_blank)

lemma atomdb_tokens_leading: "is_sep c \<Longrightarrow> atomdb_tokens (c # v) = atomdb_tokens v"
  using atomdb_tokens_append_sep [of c "[]" v] by (simp add: atomdb_tokens_Nil)

lemma atomdb_tokens_trailing: "is_sep c \<Longrightarrow> atomdb_tokens (u @ [c]) = atomdb_tokens u"
  using atomdb_tokens_append_sep [of c u "[]"] by (simp add: atomdb_tokens_Nil)

lemma sep_equiv_tokens: "sep_equiv a b \<Longrightarrow> atomdb_tokens a = atomdb_tokens b"
proof (induction rule: sep_equiv.induct)
  case (longer c d u v)
  then show ?case
    by (simp add: atomdb_tokens_append_sep atomdb_tokens_leading)
qed (simp_all add: atomdb_tokens_append_sep atomdb_tokens_leading atomdb_tokens_trailing
    atomdb_tokens_Nil)

lemma atomdb_tokens_dropWhile:
  "atomdb_tokens (dropWhile isWhiteSpace l) = atomdb_tokens l"
  by (induction l) (simp_all add: atomdb_tokens_leading is_sep_def)

lemma atomdb_tokens_dropWhile_rev:
  "atomdb_tokens (rev (dropWhile isWhiteSpace (rev l))) = atomdb_tokens l"
  by (induction l rule: rev_induct) (simp_all add: atomdb_tokens_trailing is_sep_def)

lemma atomdb_tokens_trimmed: "atomdb_tokens (trimmed l) = atomdb_tokens l"
  by (simp add: trimmed_def atomdb_tokens_dropWhile_rev atomdb_tokens_dropWhile)

lemma atomdb_step_tokens:
  "atomdb_tokens l = atomdb_tokens l' \<Longrightarrow> atomdb_step V res l = atomdb_step V res l'"
  by (simp add: atomdb_step_def atomdb_tokens_def)

lemma atomdb_step_Nil: "atomdb_step V res [] = Inr res"
  using atomdb_tokens_Nil by (simp add: atomdb_step_def atomdb_tokens_def)

lemma atomdb_loop_tokens:
  "map atomdb_tokens ls = map atomdb_tokens ls' \<Longrightarrow> atomdb_loop V res ls = atomdb_loop V res ls'"
proof (induction ls arbitrary: ls' res)
  case Nil
  then show ?case by simp
next
  case (Cons l ls)
  then obtain l' ms where ls': "ls' = l' # ms" and l: "atomdb_tokens l = atomdb_tokens l'"
    and ms: "map atomdb_tokens ls = map atomdb_tokens ms"
    by (cases ls') auto
  show ?case
    by (simp add: ls' atomdb_step_tokens [OF l] Cons.IH [OF ms] split: sum.splits)
qed

lemma atomdb_loop_skip_empty:
  "atomdb_loop V res (filter (\<lambda>x. x \<noteq> []) ls) = atomdb_loop V res ls"
  by (induction ls arbitrary: res) (simp_all add: atomdb_step_Nil split: sum.splits)

lemma str2val_as_loop:
  "vardef_atomdb_str2val V sv
   = atomdb_loop V [] (map trimmed (split_on (\<lambda>c. c = CHR ''@'') sv))"
  by (simp add: vardef_atomdb_str2val_def splitTrimmedNoEmpty_def atomdb_loop_skip_empty)

lemma atomdb_canon_tokens: "atomdb_canon l = joinstr (atomdb_tokens l) '':''"
  by (simp add: atomdb_canon_def atomdb_tokens_def)

lemma atomdb_tokens_nonempty: "p \<in> set (atomdb_tokens l) \<Longrightarrow> p \<noteq> []"
  by (simp add: atomdb_tokens_def split_ws_def)

lemma joinstr_Nil_iff: "\<forall>p \<in> set ps. p \<noteq> [] \<Longrightarrow> joinstr ps sep = [] \<longleftrightarrow> ps = []"
  by (induction ps sep rule: joinstr.induct) auto

lemma atomdb_canon_Nil_iff: "atomdb_canon l = [] \<longleftrightarrow> atomdb_tokens l = []"
  using joinstr_Nil_iff [of "atomdb_tokens l" "'':''"] atomdb_tokens_nonempty [of _ l]
  by (auto simp: atomdb_canon_tokens)

lemma atomdb_step_canon:
  "atomdb_step V res l =
     (if atomdb_canon l = [] then Inr res
      else case V (split2 (atomdb_canon l) (CHR '':'')) of
             Inl e \<Rightarrow> (case e of BadInput what \<Rightarrow> Inl (BadInput (msg_atomdb_line (atomdb_canon l) what)))
           | Inr _ \<Rightarrow>
               if atomdb_canon l = ''nodefaults'' \<and> res \<noteq> []
               then Inl (BadInput msg_atomdb_nodefaults)
               else Inr ((if res \<noteq> [] then res @ ''@'' else res) @ atomdb_canon l))"
proof (cases "atomdb_tokens l = []")
  case True
  then have "joinstr (atomdb_tokens l) '':'' = []" by simp
  with True show ?thesis
    by (simp add: atomdb_step_def Let_def atomdb_canon_tokens flip: atomdb_tokens_def)
next
  case False
  then have "joinstr (atomdb_tokens l) '':'' \<noteq> []"
    using atomdb_canon_Nil_iff [of l] by (simp add: atomdb_canon_tokens)
  with False show ?thesis
    by (simp add: atomdb_step_def Let_def atomdb_canon_tokens flip: atomdb_tokens_def
        split: sum.splits error.splits)
qed

lemma atomdb_step_cases:
  "(\<exists>m. atomdb_step V res l = Inl (BadInput m))
   \<or> atomdb_step V res l = Inr ((if res \<noteq> [] \<and> atomdb_canon l \<noteq> [] then res @ ''@'' else res) @ atomdb_canon l)"
  by (auto simp: atomdb_step_canon split: sum.splits error.splits)

lemma atomdb_step_nodefaults:
  "res \<noteq> [] \<Longrightarrow> atomdb_canon l = ''nodefaults'' \<Longrightarrow> \<exists>m. atomdb_step V res l = Inl (BadInput m)"
  by (auto simp: atomdb_step_canon split: sum.splits error.splits)

lemma atomdb_step_ok:
  "atomdb_canon l \<noteq> [] \<Longrightarrow> V (split2 (atomdb_canon l) (CHR '':'')) = Inr ()
   \<Longrightarrow> \<not> (atomdb_canon l = ''nodefaults'' \<and> res \<noteq> [])
   \<Longrightarrow> atomdb_step V res l = Inr ((if res \<noteq> [] then res @ ''@'' else res) @ atomdb_canon l)"
  by (simp add: atomdb_step_canon)

lemma atomdb_step_skip: "atomdb_canon l = [] \<Longrightarrow> atomdb_step V res l = Inr res"
  by (simp add: atomdb_step_canon)

lemma atomdb_loop_nodefaults_later:
  "res \<noteq> [] \<Longrightarrow> ''nodefaults'' \<in> set (map atomdb_canon ls)
   \<Longrightarrow> \<exists>m. atomdb_loop V res ls = Inl (BadInput m)"
proof (induction ls arbitrary: res)
  case Nil
  then show ?case by simp
next
  case (Cons l ls)
  show ?case
  proof (cases "atomdb_canon l = ''nodefaults''")
    case True
    from atomdb_step_nodefaults [OF Cons.prems(1) True, of V] show ?thesis by auto
  next
    case False
    with Cons.prems have later: "''nodefaults'' \<in> set (map atomdb_canon ls)" by simp
    from atomdb_step_cases [of V res l] show ?thesis
    proof
      assume "\<exists>m. atomdb_step V res l = Inl (BadInput m)"
      then show ?thesis by auto
    next
      let ?res = "(if res \<noteq> [] \<and> atomdb_canon l \<noteq> [] then res @ ''@'' else res) @ atomdb_canon l"
      assume "atomdb_step V res l = Inr ?res"
      moreover have "?res \<noteq> []" using Cons.prems(1) by simp
      ultimately show ?thesis using Cons.IH [OF _ later, of ?res] by simp
    qed
  qed
qed

lemma atomdb_loop_nodefaults_not_first:
  "filter (\<lambda>x. x \<noteq> []) (map atomdb_canon ls) = pre @ ''nodefaults'' # post \<Longrightarrow> pre \<noteq> []
   \<Longrightarrow> \<exists>m. atomdb_loop V res ls = Inl (BadInput m)"
proof (induction ls arbitrary: res)
  case Nil
  then show ?case by simp
next
  case (Cons l ls)
  show ?case
  proof (cases "atomdb_canon l = []")
    case True
    with Cons.prems have "filter (\<lambda>x. x \<noteq> []) (map atomdb_canon ls) = pre @ ''nodefaults'' # post"
      by simp
    from Cons.IH [OF this Cons.prems(2)] show ?thesis
      by (simp add: atomdb_step_skip [OF True])
  next
    case False
    with Cons.prems obtain pre' where
      "filter (\<lambda>x. x \<noteq> []) (map atomdb_canon ls) = pre' @ ''nodefaults'' # post"
      by (cases pre) auto
    then have "''nodefaults'' \<in> set (filter (\<lambda>x. x \<noteq> []) (map atomdb_canon ls))" by simp
    then have later: "''nodefaults'' \<in> set (map atomdb_canon ls)" by simp
    from atomdb_step_cases [of V res l] show ?thesis
    proof
      assume "\<exists>m. atomdb_step V res l = Inl (BadInput m)"
      then show ?thesis by auto
    next
      let ?res = "(if res \<noteq> [] \<and> atomdb_canon l \<noteq> [] then res @ ''@'' else res) @ atomdb_canon l"
      assume "atomdb_step V res l = Inr ?res"
      moreover have "?res \<noteq> []" using False by simp
      ultimately show ?thesis
        using atomdb_loop_nodefaults_later [OF _ later, of ?res V] by simp
    qed
  qed
qed

lemma joinstr_merge: "joinstr ((a @ c # b) # xs) [c] = joinstr (a # b # xs) [c]"
  by (cases xs) simp_all

lemma atomdb_loop_ok_after_first:
  "res \<noteq> [] \<Longrightarrow> \<forall>c \<in> set (map atomdb_canon ls). c \<noteq> [] \<longrightarrow> V (split2 c (CHR '':'')) = Inr ()
   \<Longrightarrow> ''nodefaults'' \<notin> set (map atomdb_canon ls)
   \<Longrightarrow> atomdb_loop V res ls = Inr (joinstr (res # filter (\<lambda>x. x \<noteq> []) (map atomdb_canon ls)) ''@'')"
proof (induction ls arbitrary: res)
  case Nil
  then show ?case by simp
next
  case (Cons l ls)
  then have valid: "\<forall>c \<in> set (map atomdb_canon ls). c \<noteq> [] \<longrightarrow> V (split2 c (CHR '':'')) = Inr ()"
    and nod: "''nodefaults'' \<notin> set (map atomdb_canon ls)" by auto
  show ?case
  proof (cases "atomdb_canon l = []")
    case True
    with Cons.IH [OF Cons.prems(1) valid nod] show ?thesis
      by (simp add: atomdb_step_skip [OF True])
  next
    case False
    with Cons.prems have "V (split2 (atomdb_canon l) (CHR '':'')) = Inr ()"
      and "atomdb_canon l \<noteq> ''nodefaults''" by auto
    with False Cons.prems(1) have step: "atomdb_step V res l = Inr (res @ ''@'' @ atomdb_canon l)"
      by (simp add: atomdb_step_ok)
    have "res @ ''@'' @ atomdb_canon l \<noteq> []" using False by simp
    from Cons.IH [OF this valid nod] step False show ?thesis
      by (simp add: joinstr_merge)
  qed
qed

lemma atomdb_loop_ok:
  "\<forall>c \<in> set (map atomdb_canon ls). c \<noteq> [] \<longrightarrow> V (split2 c (CHR '':'')) = Inr ()
   \<Longrightarrow> filter (\<lambda>x. x \<noteq> []) (map atomdb_canon ls) = first # others
   \<Longrightarrow> ''nodefaults'' \<notin> set others
   \<Longrightarrow> atomdb_loop V [] ls = Inr (joinstr (first # others) ''@'')"
proof (induction ls)
  case Nil
  then show ?case by simp
next
  case (Cons l ls)
  then have valid: "\<forall>c \<in> set (map atomdb_canon ls). c \<noteq> [] \<longrightarrow> V (split2 c (CHR '':'')) = Inr ()"
    by auto
  show ?case
  proof (cases "atomdb_canon l = []")
    case True
    with Cons.prems have "filter (\<lambda>x. x \<noteq> []) (map atomdb_canon ls) = first # others" by simp
    from Cons.IH [OF valid this Cons.prems(3)] show ?thesis
      by (simp add: atomdb_step_skip [OF True])
  next
    case False
    with Cons.prems have first: "atomdb_canon l = first"
      and others: "filter (\<lambda>x. x \<noteq> []) (map atomdb_canon ls) = others" by auto
    have "''nodefaults'' \<in> set (map atomdb_canon ls)
          \<Longrightarrow> ''nodefaults'' \<in> set (filter (\<lambda>x. x \<noteq> []) (map atomdb_canon ls))"
      by simp
    with others Cons.prems(3) have nod: "''nodefaults'' \<notin> set (map atomdb_canon ls)"
      by blast
    from Cons.prems(1) False have "V (split2 (atomdb_canon l) (CHR '':'')) = Inr ()" by simp
    with False have step: "atomdb_step V [] l = Inr (atomdb_canon l)"
      by (simp add: atomdb_step_ok)
    from atomdb_loop_ok_after_first [OF False valid nod] step first others show ?thesis
      by simp
  qed
qed

lemmas atomdb_eval =
  vardef_atomdb_str2val_def atomdb_lines_def atomdb_canon_def atomdb_step_def
  splitTrimmedNoEmpty_def trimmed_def isWhiteSpace_def strreplace_colon colon_to_blank_def
  split_ws_def split2_def msg_atomdb_nodefaults_def dquote_def Let_def

text \<open>
  C4. When the first canonical non-empty line of the input is "nodefaults", no later
  line is, and the line validator accepts every line, the input parses, to the canonical
  lines joined by "@". When "nodefaults" is a canonical line after another non-empty
  line, the input is rejected with a BadInput error (whatever the line validator says).
\<close>

theorem atomdb_nodefaults_first_only:
  "(atomdb_lines sv = ''nodefaults'' # others \<and> ''nodefaults'' \<notin> set others
      \<and> (\<forall>c \<in> set (atomdb_lines sv). validateAtomDBLine (split2 c (CHR '':'')) = Inr ())
     \<longrightarrow> vardef_atomdb_str2val validateAtomDBLine sv = Inr (joinstr (atomdb_lines sv) ''@''))
   \<and> (atomdb_lines sv = pre @ ''nodefaults'' # post \<and> pre \<noteq> []
     \<longrightarrow> (\<exists>m. vardef_atomdb_str2val validateAtomDBLine sv = Inl (BadInput m)))"
proof (intro conjI impI)
  assume h: "atomdb_lines sv = ''nodefaults'' # others \<and> ''nodefaults'' \<notin> set others
      \<and> (\<forall>c \<in> set (atomdb_lines sv). validateAtomDBLine (split2 c (CHR '':'')) = Inr ())"
  let ?ls = "splitTrimmedNoEmpty (CHR ''@'') sv"
  from h have valid: "\<forall>c \<in> set (map atomdb_canon ?ls).
      c \<noteq> [] \<longrightarrow> validateAtomDBLine (split2 c (CHR '':'')) = Inr ()"
    by (simp add: atomdb_lines_def)
  from h have lines: "filter (\<lambda>x. x \<noteq> []) (map atomdb_canon ?ls) = ''nodefaults'' # others"
    and nod: "''nodefaults'' \<notin> set others"
    by (simp_all add: atomdb_lines_def)
  from atomdb_loop_ok [OF valid lines nod] h
  show "vardef_atomdb_str2val validateAtomDBLine sv = Inr (joinstr (atomdb_lines sv) ''@'')"
    by (simp add: vardef_atomdb_str2val_def)
next
  assume h: "atomdb_lines sv = pre @ ''nodefaults'' # post \<and> pre \<noteq> []"
  then have "filter (\<lambda>x. x \<noteq> []) (map atomdb_canon (splitTrimmedNoEmpty (CHR ''@'') sv))
             = pre @ ''nodefaults'' # post" and "pre \<noteq> []"
    by (simp_all add: atomdb_lines_def)
  from atomdb_loop_nodefaults_not_first [OF this]
  show "\<exists>m. vardef_atomdb_str2val validateAtomDBLine sv = Inl (BadInput m)"
    by (simp add: vardef_atomdb_str2val_def)
qed

theorem atomdb_nodefaults_first_only_witness:
  "atomdb_lines ''nodefaults@H is H'' = [''nodefaults'', ''H:is:H'']
   \<and> vardef_atomdb_str2val (\<lambda>words. Inr ()) ''nodefaults@H is H'' = Inr ''nodefaults@H:is:H''
   \<and> atomdb_lines ''H is H@nodefaults'' = [''H:is:H'', ''nodefaults'']
   \<and> (\<exists>m. vardef_atomdb_str2val (\<lambda>words. Inr ()) ''H is H@nodefaults'' = Inl (BadInput m))"
proof -
  have 1: "atomdb_lines ''nodefaults@H is H'' = [''nodefaults'', ''H:is:H'']"
    by (simp add: atomdb_eval)
  have 2: "atomdb_lines ''H is H@nodefaults'' = [''H:is:H'', ''nodefaults'']"
    by (simp add: atomdb_eval)
  have "vardef_atomdb_str2val (\<lambda>words. Inr ()) ''nodefaults@H is H'' = Inr ''nodefaults@H:is:H''"
    using atomdb_nodefaults_first_only
      [of "''nodefaults@H is H''" "[''H:is:H'']" "\<lambda>words. Inr ()"]
    by (simp add: 1)
  moreover have "\<exists>m. vardef_atomdb_str2val (\<lambda>words. Inr ()) ''H is H@nodefaults''
                      = Inl (BadInput m)"
    using atomdb_nodefaults_first_only
      [of "''H is H@nodefaults''" _ "\<lambda>words. Inr ()" "[''H:is:H'']" "[]"]
    by (simp add: 2)
  ultimately show ?thesis using 1 2 by simp
qed

text \<open>
  The canonical line of a line differs from it only in separators, so two lines have the
  same canonical line exactly when they differ only in separators. The canonical line is
  made of the maximal runs of characters that are neither colons nor whitespace, with
  one colon between two neighbours.
\<close>

lemma hd_split_on_Nil_iff: "hd (split_on p s) = [] \<longleftrightarrow> s = [] \<or> p (hd s)"
  by (cases s) (auto split: list.splits simp: split_on_not_Nil)

lemma colon_to_blank_nonsep: "\<not> is_sep c \<Longrightarrow> colon_to_blank c = c \<and> \<not> isWhiteSpace c"
  by (auto simp: is_sep_def colon_to_blank_def)

lemma atomdb_tokens_Cons_nonsep:
  assumes "\<not> is_sep c"
  shows "atomdb_tokens (c # cs)
         = (if cs = [] \<or> is_sep (hd cs) then [c] # atomdb_tokens cs
            else (c # hd (atomdb_tokens cs)) # tl (atomdb_tokens cs))"
    and "cs \<noteq> [] \<Longrightarrow> \<not> is_sep (hd cs) \<Longrightarrow> atomdb_tokens cs \<noteq> []"
proof -
  let ?f = "split_on isWhiteSpace (map colon_to_blank cs)"
  obtain w ws where f: "?f = w # ws" using split_on_not_Nil [of isWhiteSpace] by (cases ?f) auto
  have w: "w = [] \<longleftrightarrow> cs = [] \<or> is_sep (hd cs)"
    using hd_split_on_Nil_iff [of isWhiteSpace "map colon_to_blank cs"] f
    by (cases cs) (auto simp: isWhiteSpace_colon_to_blank)
  have tc: "atomdb_tokens (c # cs) = (c # w) # filter (\<lambda>x. x \<noteq> []) ws"
    using assms f colon_to_blank_nonsep [OF assms]
    by (simp add: atomdb_tokens_def strreplace_colon split_ws_def)
  have ts: "atomdb_tokens cs = filter (\<lambda>x. x \<noteq> []) (w # ws)"
    using f by (simp add: atomdb_tokens_def strreplace_colon split_ws_def)
  show "atomdb_tokens (c # cs)
         = (if cs = [] \<or> is_sep (hd cs) then [c] # atomdb_tokens cs
            else (c # hd (atomdb_tokens cs)) # tl (atomdb_tokens cs))"
    using w by (simp add: tc ts)
  show "atomdb_tokens cs \<noteq> []" if "cs \<noteq> []" "\<not> is_sep (hd cs)"
    using that w by (simp add: ts)
qed

lemma joinstr_Cons_Cons: "joinstr ((c # w) # ws) sep = c # joinstr (w # ws) sep"
  by (cases ws) simp_all

lemma joinstr_Cons: "joinstr (p # ps) sep = (if ps = [] then p else p @ sep @ joinstr ps sep)"
  by (cases ps) simp_all

lemma atomdb_canon_Cons_nonsep:
  assumes "\<not> is_sep c"
  shows "atomdb_canon (c # cs) = c # sep_glue cs @ atomdb_canon cs"
proof (cases "cs = [] \<or> is_sep (hd cs)")
  case True
  then have "atomdb_tokens (c # cs) = [c] # atomdb_tokens cs"
    by (simp add: atomdb_tokens_Cons_nonsep(1) [OF assms])
  moreover have "cs = [] \<Longrightarrow> atomdb_tokens cs = []" by (simp add: atomdb_tokens_Nil)
  ultimately show ?thesis using True
    by (auto simp: atomdb_canon_tokens sep_glue_def joinstr_Cons)
next
  case False
  then have ne: "atomdb_tokens cs \<noteq> []"
    using atomdb_tokens_Cons_nonsep(2) [OF assms, of cs] by simp
  then obtain w ws where ws: "atomdb_tokens cs = w # ws" by (cases "atomdb_tokens cs") auto
  from False have "atomdb_tokens (c # cs) = (c # w) # ws"
    by (simp add: atomdb_tokens_Cons_nonsep(1) [OF assms] ws)
  then show ?thesis using False
    by (simp add: atomdb_canon_tokens sep_glue_def ws joinstr_Cons_Cons)
qed

lemma atomdb_canon_Cons_sep: "is_sep c \<Longrightarrow> atomdb_canon (c # cs) = atomdb_canon cs"
  by (simp add: atomdb_canon_tokens atomdb_tokens_leading)

lemma is_sep_colon: "is_sep (CHR '':'')"
  by (simp add: is_sep_def)

lemma sep_equiv_in_context:
  "sep_equiv (p @ l) (p @ sep_glue l @ atomdb_canon l)"
proof (induction l arbitrary: p)
  case Nil
  show ?case by (simp add: sep_glue_def atomdb_canon_tokens atomdb_tokens_Nil sep_equiv.same)
next
  case (Cons c cs)
  have IH: "sep_equiv (p @ c # cs) (p @ c # sep_glue cs @ atomdb_canon cs)"
    using Cons.IH [of "p @ [c]"] by simp
  show ?case
  proof (cases "is_sep c")
    case False
    then show ?thesis
      using IH by (simp add: atomdb_canon_Cons_nonsep sep_glue_def)
  next
    case True
    show ?thesis
    proof (cases "atomdb_tokens cs = []")
      case empty: True
      then have "atomdb_canon cs = []" "sep_glue cs = []"
        by (simp_all add: atomdb_canon_tokens sep_glue_def)
      with IH have "sep_equiv (p @ c # cs) (p @ [c])" by simp
      moreover have "sep_equiv (p @ [c]) p" by (rule sep_equiv.trailing [OF True])
      ultimately have "sep_equiv (p @ c # cs) p" by (rule sep_equiv.chained)
      then show ?thesis using True empty
        by (simp add: sep_glue_def atomdb_canon_tokens atomdb_tokens_leading)
    next
      case nonempty: False
      have goal: "p @ sep_glue (c # cs) @ atomdb_canon (c # cs) = p @ CHR '':'' # atomdb_canon cs"
        using True nonempty
        by (simp add: sep_glue_def atomdb_canon_Cons_sep atomdb_tokens_leading)
      have "sep_equiv (p @ c # sep_glue cs @ atomdb_canon cs) (p @ CHR '':'' # atomdb_canon cs)"
      proof (cases "sep_glue cs = []")
        case g: True
        then show ?thesis
          using sep_equiv.swap [OF True is_sep_colon, of p "atomdb_canon cs"] by simp
      next
        case g: False
        then have g': "sep_glue cs = '':''" by (simp add: sep_glue_def split: if_splits)
        have "sep_equiv (p @ c # CHR '':'' # atomdb_canon cs) (p @ c # atomdb_canon cs)"
          by (rule sep_equiv.flipped [OF sep_equiv.longer [OF True is_sep_colon]])
        moreover have "sep_equiv (p @ c # atomdb_canon cs) (p @ CHR '':'' # atomdb_canon cs)"
          by (rule sep_equiv.swap [OF True is_sep_colon])
        ultimately show ?thesis using g' by (simp add: sep_equiv.chained)
      qed
      with IH have "sep_equiv (p @ c # cs) (p @ CHR '':'' # atomdb_canon cs)"
        by (rule sep_equiv.chained)
      then show ?thesis by (simp only: goal)
    qed
  qed
qed

lemma sep_equiv_canon: "sep_equiv l (atomdb_canon l)"
proof -
  from sep_equiv_in_context [of "[]" l]
  have 1: "sep_equiv l (sep_glue l @ atomdb_canon l)" by simp
  show ?thesis
  proof (cases "sep_glue l = []")
    case True
    with 1 show ?thesis by simp
  next
    case False
    then have "sep_glue l = '':''" by (simp add: sep_glue_def split: if_splits)
    with 1 have "sep_equiv l (CHR '':'' # atomdb_canon l)" by simp
    moreover have "sep_equiv (CHR '':'' # atomdb_canon l) (atomdb_canon l)"
      by (rule sep_equiv.leading [OF is_sep_colon])
    ultimately show ?thesis by (rule sep_equiv.chained)
  qed
qed

lemma sep_equiv_iff_canon: "sep_equiv l1 l2 \<longleftrightarrow> atomdb_canon l1 = atomdb_canon l2"
proof
  assume "sep_equiv l1 l2"
  then show "atomdb_canon l1 = atomdb_canon l2"
    by (simp add: atomdb_canon_tokens sep_equiv_tokens)
next
  assume eq: "atomdb_canon l1 = atomdb_canon l2"
  have "sep_equiv l1 (atomdb_canon l2)" using sep_equiv_canon [of l1] eq by simp
  moreover have "sep_equiv (atomdb_canon l2) l2" by (rule sep_equiv.flipped [OF sep_equiv_canon])
  ultimately show "sep_equiv l1 l2" by (rule sep_equiv.chained)
qed

lemma split_on_fields: "\<forall>w \<in> set (split_on p s). \<forall>c \<in> set w. \<not> p c"
  by (induction s) (auto split: list.splits)

lemma split_on_no_p: "w \<in> set (split_on p s) \<Longrightarrow> c \<in> set w \<Longrightarrow> \<not> p c"
  using split_on_fields by blast

lemma set_joinstr: "set (joinstr ps sep) \<subseteq> \<Union> (set ` set ps) \<union> set sep"
  by (induction ps sep rule: joinstr.induct) auto

lemma atomdb_canon_no_whitespace: "c \<in> set (atomdb_canon l) \<Longrightarrow> \<not> isWhiteSpace c"
proof
  assume c: "c \<in> set (atomdb_canon l)" and ws: "isWhiteSpace c"
  from c set_joinstr [of "atomdb_tokens l" "'':''"]
  have "c \<in> \<Union> (set ` set (atomdb_tokens l)) \<or> c = CHR '':''"
    by (auto simp: atomdb_canon_tokens)
  moreover have "c \<noteq> CHR '':''" using ws by (auto simp: isWhiteSpace_def)
  ultimately obtain w where "w \<in> set (atomdb_tokens l)" "c \<in> set w" by auto
  then have "w \<in> set (split_on isWhiteSpace (map colon_to_blank l))"
    by (simp add: atomdb_tokens_def strreplace_colon split_ws_def)
  from split_on_no_p [OF this \<open>c \<in> set w\<close>] ws show False by simp
qed

lemma str2val_single_line:
  assumes "CHR ''@'' \<notin> set l"
  shows "vardef_atomdb_str2val V l = atomdb_step V [] l"
proof -
  from assms have "split_on (\<lambda>c. c = CHR ''@'') l = [l]"
    by (intro split_on_no_sep) auto
  then have "vardef_atomdb_str2val V l = atomdb_loop V [] [trimmed l]"
    by (simp add: str2val_as_loop)
  also have "\<dots> = atomdb_loop V [] [l]"
    by (rule atomdb_loop_tokens) (simp add: atomdb_tokens_trimmed)
  also have "\<dots> = atomdb_step V [] l"
    by (simp split: sum.splits)
  finally show ?thesis .
qed

lemma str2val_single_line_ok:
  "CHR ''@'' \<notin> set l \<Longrightarrow> V (split2 (atomdb_canon l) (CHR '':'')) = Inr ()
   \<Longrightarrow> vardef_atomdb_str2val V l = Inr (atomdb_canon l)"
  by (simp add: str2val_single_line atomdb_step_canon)

lemma str2val_single_line_bad:
  "CHR ''@'' \<notin> set l \<Longrightarrow> atomdb_canon l \<noteq> []
   \<Longrightarrow> V (split2 (atomdb_canon l) (CHR '':'')) = Inl (BadInput what)
   \<Longrightarrow> vardef_atomdb_str2val V l = Inl (BadInput (msg_atomdb_line (atomdb_canon l) what))"
  by (simp add: str2val_single_line atomdb_step_canon)

lemma split_on_map_colon:
  "split_on isWhiteSpace (map colon_to_blank l) = map (map colon_to_blank) (split_on is_sep l)"
  by (induction l) (auto simp: isWhiteSpace_colon_to_blank split_on_not_Nil split: list.splits)

lemma atomdb_tokens_explicit:
  "atomdb_tokens l = filter (\<lambda>w. w \<noteq> []) (split_on is_sep l)"
proof -
  have id: "map colon_to_blank w = w" if "w \<in> set (split_on is_sep l)" for w
  proof (rule map_idI)
    fix c assume "c \<in> set w"
    with that have "\<not> is_sep c" by (rule split_on_no_p)
    then show "colon_to_blank c = c" by (simp add: colon_to_blank_nonsep)
  qed
  have "atomdb_tokens l
        = filter (\<lambda>w. w \<noteq> []) (map (map colon_to_blank) (split_on is_sep l))"
    by (simp add: atomdb_tokens_def strreplace_colon split_ws_def split_on_map_colon)
  also have "\<dots> = map (map colon_to_blank) (filter (\<lambda>w. w \<noteq> []) (split_on is_sep l))"
    by (simp add: filter_map comp_def)
  also have "\<dots> = filter (\<lambda>w. w \<noteq> []) (split_on is_sep l)"
    by (rule map_idI) (simp add: id)
  finally show ?thesis .
qed

lemma atomdb_canon_explicit:
  "atomdb_canon l = joinstr (filter (\<lambda>w. w \<noteq> []) (split_on is_sep l)) '':''"
  by (simp add: atomdb_canon_tokens atomdb_tokens_explicit)

lemma atomdb_loop_all_empty:
  "\<forall>l \<in> set ls. atomdb_canon l = [] \<Longrightarrow> atomdb_loop V res ls = Inr res"
  by (induction ls) (simp_all add: atomdb_step_skip)

lemma str2val_canonical_lines:
  assumes valid: "\<forall>c \<in> set (atomdb_lines sv). V (split2 c (CHR '':'')) = Inr ()"
    and nod: "''nodefaults'' \<notin> set (tl (atomdb_lines sv))"
  shows "vardef_atomdb_str2val V sv = Inr (joinstr (atomdb_lines sv) ''@'')"
proof (cases "atomdb_lines sv")
  case Nil
  then have "\<forall>l \<in> set (splitTrimmedNoEmpty (CHR ''@'') sv). atomdb_canon l = []"
    by (auto simp: atomdb_lines_def filter_empty_conv)
  from atomdb_loop_all_empty [OF this] Nil show ?thesis
    by (simp add: vardef_atomdb_str2val_def)
next
  case (Cons first others)
  let ?ls = "splitTrimmedNoEmpty (CHR ''@'') sv"
  from valid have v: "\<forall>c \<in> set (map atomdb_canon ?ls).
      c \<noteq> [] \<longrightarrow> V (split2 c (CHR '':'')) = Inr ()"
    by (simp add: atomdb_lines_def)
  from Cons have lines: "filter (\<lambda>x. x \<noteq> []) (map atomdb_canon ?ls) = first # others"
    by (simp add: atomdb_lines_def)
  from nod Cons have n: "''nodefaults'' \<notin> set others" by simp
  from atomdb_loop_ok [OF v lines n] Cons show ?thesis
    by (simp add: vardef_atomdb_str2val_def)
qed

text \<open>
  C6. Two inputs whose lines differ, line by line, only in their separators (colons
  against whitespace, the length of a run of separators, separators at the start or the
  end of a line) give the same result. Two lines differ only in their separators exactly
  when they have the same canonical line; the canonical line of a line differs from it
  only in separators, holds no whitespace, and is made of the runs of non-separator
  characters of the line joined by single colons. The parser returns that canonical line
  for a line the validator accepts (and names it in the error for a line the validator
  rejects), and for an input of several lines the canonical non-empty lines joined by
  "@". "H:is:H" and "H  is  H" give the same result, whatever the line validator is.
\<close>

theorem atomdb_separators_normalised:
  "(list_all2 sep_equiv (split_on (\<lambda>c. c = CHR ''@'') s1) (split_on (\<lambda>c. c = CHR ''@'') s2)
      \<longrightarrow> vardef_atomdb_str2val validateAtomDBLine s1
          = vardef_atomdb_str2val validateAtomDBLine s2)
   \<and> (sep_equiv l1 l2 \<longleftrightarrow> atomdb_canon l1 = atomdb_canon l2)
   \<and> sep_equiv l1 (atomdb_canon l1)
   \<and> (\<forall>c \<in> set (atomdb_canon l1). \<not> isWhiteSpace c)
   \<and> atomdb_canon l1 = joinstr (filter (\<lambda>w. w \<noteq> []) (split_on is_sep l1)) '':''
   \<and> (CHR ''@'' \<notin> set l1 \<and> validateAtomDBLine (split2 (atomdb_canon l1) (CHR '':'')) = Inr ()
      \<longrightarrow> vardef_atomdb_str2val validateAtomDBLine l1 = Inr (atomdb_canon l1))
   \<and> (CHR ''@'' \<notin> set l1 \<and> atomdb_canon l1 \<noteq> []
        \<and> validateAtomDBLine (split2 (atomdb_canon l1) (CHR '':'')) = Inl (BadInput what)
      \<longrightarrow> vardef_atomdb_str2val validateAtomDBLine l1
          = Inl (BadInput (msg_atomdb_line (atomdb_canon l1) what)))
   \<and> ((\<forall>c \<in> set (atomdb_lines s1). validateAtomDBLine (split2 c (CHR '':'')) = Inr ())
        \<and> ''nodefaults'' \<notin> set (tl (atomdb_lines s1))
      \<longrightarrow> vardef_atomdb_str2val validateAtomDBLine s1 = Inr (joinstr (atomdb_lines s1) ''@''))
   \<and> vardef_atomdb_str2val validateAtomDBLine ''H:is:H''
     = vardef_atomdb_str2val validateAtomDBLine ''H  is  H''"
proof (intro conjI impI ballI)
  assume "list_all2 sep_equiv (split_on (\<lambda>c. c = CHR ''@'') s1) (split_on (\<lambda>c. c = CHR ''@'') s2)"
  then have "list_all2 (\<lambda>a b. atomdb_tokens (trimmed a) = atomdb_tokens (trimmed b))
     (split_on (\<lambda>c. c = CHR ''@'') s1) (split_on (\<lambda>c. c = CHR ''@'') s2)"
    by (rule list_all2_mono) (simp add: atomdb_tokens_trimmed sep_equiv_tokens)
  then have "map atomdb_tokens (map trimmed (split_on (\<lambda>c. c = CHR ''@'') s1))
           = map atomdb_tokens (map trimmed (split_on (\<lambda>c. c = CHR ''@'') s2))"
    by (induction rule: list_all2_induct) simp_all
  from atomdb_loop_tokens [OF this]
  show "vardef_atomdb_str2val validateAtomDBLine s1 = vardef_atomdb_str2val validateAtomDBLine s2"
    by (simp only: str2val_as_loop)
next
  show "sep_equiv l1 l2 \<longleftrightarrow> atomdb_canon l1 = atomdb_canon l2"
    by (rule sep_equiv_iff_canon)
next
  show "sep_equiv l1 (atomdb_canon l1)"
    by (rule sep_equiv_canon)
next
  fix c assume "c \<in> set (atomdb_canon l1)"
  then show "\<not> isWhiteSpace c" by (rule atomdb_canon_no_whitespace)
next
  show "atomdb_canon l1 = joinstr (filter (\<lambda>w. w \<noteq> []) (split_on is_sep l1)) '':''"
    by (rule atomdb_canon_explicit)
next
  assume "CHR ''@'' \<notin> set l1 \<and> validateAtomDBLine (split2 (atomdb_canon l1) (CHR '':'')) = Inr ()"
  then show "vardef_atomdb_str2val validateAtomDBLine l1 = Inr (atomdb_canon l1)"
    by (simp add: str2val_single_line_ok)
next
  assume "CHR ''@'' \<notin> set l1 \<and> atomdb_canon l1 \<noteq> []
        \<and> validateAtomDBLine (split2 (atomdb_canon l1) (CHR '':'')) = Inl (BadInput what)"
  then show "vardef_atomdb_str2val validateAtomDBLine l1
          = Inl (BadInput (msg_atomdb_line (atomdb_canon l1) what))"
    by (simp add: str2val_single_line_bad)
next
  assume "(\<forall>c \<in> set (atomdb_lines s1). validateAtomDBLine (split2 c (CHR '':'')) = Inr ())
        \<and> ''nodefaults'' \<notin> set (tl (atomdb_lines s1))"
  then show "vardef_atomdb_str2val validateAtomDBLine s1 = Inr (joinstr (atomdb_lines s1) ''@'')"
    by (simp add: str2val_canonical_lines)
next
  show "vardef_atomdb_str2val validateAtomDBLine ''H:is:H''
        = vardef_atomdb_str2val validateAtomDBLine ''H  is  H''"
    by (simp add: str2val_as_loop trimmed_def isWhiteSpace_def atomdb_step_def strreplace_colon
        colon_to_blank_def split_ws_def)
qed

text \<open>
  The witness: "H  is  H" is related to "H:is:H" by the rules, both have the canonical
  line "H:is:H", and the parser returns it for both, also for the second of the two
  lines of "Al is Al@ H  is  H"; a validator that rejects every line with the message
  "no" gives the error that names the canonical line.
\<close>

theorem atomdb_separators_normalised_witness:
  "sep_equiv ''H:is:H'' ''H  is  H''
   \<and> atomdb_canon ''H:is:H'' = ''H:is:H'' \<and> atomdb_canon ''H  is  H'' = ''H:is:H''
   \<and> vardef_atomdb_str2val (\<lambda>words. Inr ()) ''H:is:H'' = Inr ''H:is:H''
   \<and> vardef_atomdb_str2val (\<lambda>words. Inr ()) ''H  is  H'' = Inr ''H:is:H''
   \<and> vardef_atomdb_str2val (\<lambda>words. Inl (BadInput ''no'')) ''H  is  H''
       = Inl (BadInput (msg_atomdb_line ''H:is:H'' ''no''))
   \<and> vardef_atomdb_str2val (\<lambda>words. Inr ()) ''Al is Al@ H  is  H'' = Inr ''Al:is:Al@H:is:H''"
proof -
  have 1: "sep_equiv ''H:is:H'' ''H is:H''"
    using sep_equiv.swap [of "CHR '':''" "CHR '' ''" "''H''" "''is:H''"]
    by (simp add: is_sep_def isWhiteSpace_def)
  have 2: "sep_equiv ''H is:H'' ''H is H''"
    using sep_equiv.swap [of "CHR '':''" "CHR '' ''" "''H is''" "''H''"]
    by (simp add: is_sep_def isWhiteSpace_def)
  have 3: "sep_equiv ''H is H'' ''H  is H''"
    using sep_equiv.longer [of "CHR '' ''" "CHR '' ''" "''H''" "''is H''"]
    by (simp add: is_sep_def isWhiteSpace_def)
  have 4: "sep_equiv ''H  is H'' ''H  is  H''"
    using sep_equiv.longer [of "CHR '' ''" "CHR '' ''" "''H  is''" "''H''"]
    by (simp add: is_sep_def isWhiteSpace_def)
  have eq: "sep_equiv ''H:is:H'' ''H  is  H''"
    by (rule sep_equiv.chained [OF sep_equiv.chained [OF sep_equiv.chained [OF 1 2] 3] 4])
  have a: "atomdb_canon ''H:is:H'' = ''H:is:H''"
    by (simp add: atomdb_eval)
  note inst = atomdb_separators_normalised
    [of "''H  is  H''" "''H:is:H''" "\<lambda>words. Inr ()" "''H  is  H''" "''H:is:H''"]
  from inst eq have d: "atomdb_canon ''H  is  H'' = atomdb_canon ''H:is:H''"
    using sep_equiv.flipped by blast
  have a2: "atomdb_canon ''H  is  H'' = ''H:is:H''"
    by (rule HOL.trans [OF d a])
  have at: "CHR ''@'' \<notin> set ''H  is  H''" by simp
  from inst at a2 have b2: "vardef_atomdb_str2val (\<lambda>words. Inr ()) ''H  is  H'' = Inr ''H:is:H''"
    by simp
  from inst have c: "vardef_atomdb_str2val (\<lambda>words. Inr ()) ''H:is:H''
      = vardef_atomdb_str2val (\<lambda>words. Inr ()) ''H  is  H''" by blast
  have b: "vardef_atomdb_str2val (\<lambda>words. Inr ()) ''H:is:H'' = Inr ''H:is:H''"
    by (rule HOL.trans [OF c b2])
  have ne: "atomdb_canon ''H  is  H'' \<noteq> []" by (simp add: a2)
  from atomdb_separators_normalised
    [of _ _ "\<lambda>words. Inl (BadInput ''no'')" "''H  is  H''" _ "''no''"] at a2
  have e: "vardef_atomdb_str2val (\<lambda>words. Inl (BadInput ''no'')) ''H  is  H''
       = Inl (BadInput (msg_atomdb_line ''H:is:H'' ''no''))"
    by simp
  have lines: "atomdb_lines ''Al is Al@ H  is  H'' = [''Al:is:Al'', ''H:is:H'']"
    by (simp add: atomdb_eval)
  from atomdb_separators_normalised [of "''Al is Al@ H  is  H''" _ "\<lambda>words. Inr ()"]
  have f: "vardef_atomdb_str2val (\<lambda>words. Inr ()) ''Al is Al@ H  is  H'' = Inr ''Al:is:Al@H:is:H''"
    by (simp add: lines)
  show ?thesis by (intro conjI eq a a2 b b2 e f)
qed

end
